theory Spec2Isabelle
  imports Complex_Main "HOL-Library.AList"
begin

section \<open>Strings of the JavaScript runtime\<close>

text \<open>
  A JavaScript string is modelled as a \<^typ>\<open>string\<close>: a list of characters with codes
  0 to 255, read as the code units U+0000 to U+00FF. Numbers are modelled as exact
  rationals (\<^typ>\<open>rat\<close>): the runtime rounds the result of every operation to a
  double, the model does not. The sign of a parsed amount, and whether it is zero, are
  the same in both.
\<close>

definition isWhiteSpace :: "char \<Rightarrow> bool" where
  \<comment> \<open>the characters \<open>\s\<close> and \<open>trim()\<close> treat as white space, below U+0100\<close>
  "isWhiteSpace c =
     (c \<in> set [CHR 0x09, CHR 0x0A, CHR 0x0B, CHR 0x0C, CHR 0x0D, CHR 0x20, CHR 0xA0])"

definition isDigit :: "char \<Rightarrow> bool" where
  \<comment> \<open>\<open>\d\<close>\<close>
  "isDigit c = (c \<in> set ''0123456789'')"

definition isWordChar :: "char \<Rightarrow> bool" where
  \<comment> \<open>\<open>\w\<close>\<close>
  "isWordChar c =
     (c \<in> set ''abcdefghijklmnopqrstuvwxyzABCDEFGHIJKLMNOPQRSTUVWXYZ0123456789_'')"

definition trimStart :: "string \<Rightarrow> string" where
  "trimStart s = dropWhile isWhiteSpace s"

definition trimEnd :: "string \<Rightarrow> string" where
  "trimEnd s = rev (dropWhile isWhiteSpace (rev s))"

definition trim :: "string \<Rightarrow> string" where
  "trim s = trimEnd (trimStart s)"

definition lowerChar :: "char \<Rightarrow> char" where
  \<comment> \<open>A-Z and the Latin-1 capitals U+00C0 to U+00DE (U+00D7 is the times sign)\<close>
  "lowerChar c =
     (let n = (of_char c :: nat)
      in if (65 \<le> n \<and> n \<le> 90) \<or> (192 \<le> n \<and> n \<le> 222 \<and> n \<noteq> 215)
         then char_of (n + 32) else c)"

definition toLowerCase :: "string \<Rightarrow> string" where
  "toLowerCase s = map lowerChar s"

primrec startsWith :: "string \<Rightarrow> string \<Rightarrow> bool" where
  "startsWith s [] = True"
| "startsWith s (p # ps) = (case s of [] \<Rightarrow> False | c # cs \<Rightarrow> c = p \<and> startsWith cs ps)"

primrec includes_str :: "string \<Rightarrow> string \<Rightarrow> bool" where
  \<comment> \<open>\<open>s.includes(sub)\<close>\<close>
  "includes_str [] sub = (sub = [])"
| "includes_str (c # cs) sub = (startsWith (c # cs) sub \<or> includes_str cs sub)"

fun splitWs :: "bool \<Rightarrow> string \<Rightarrow> string \<Rightarrow> string list" where
  \<comment> \<open>\<open>s.split(/\s+/)\<close>: the flag says that the scan is inside a run of white space,
      the second argument is the current piece, reversed\<close>
  "splitWs inSep cur [] = [rev cur]"
| "splitWs inSep cur (c # cs) =
     (if isWhiteSpace c
      then (if inSep then splitWs True cur cs else rev cur # splitWs True [] cs)
      else splitWs False (c # cur) cs)"

definition split_whitespace :: "string \<Rightarrow> string list" where
  "split_whitespace s = splitWs False [] s"

fun intercalate :: "string \<Rightarrow> string list \<Rightarrow> string" where
  \<comment> \<open>\<open>xs.join(sep)\<close>\<close>
  "intercalate sep [] = []"
| "intercalate sep [x] = x"
| "intercalate sep (x # y # ys) = x @ sep @ intercalate sep (y # ys)"

definition dq :: "char" where
  \<comment> \<open>the double quote\<close>
  "dq = CHR 0x22"

section \<open>The keyword classifier (src/lib/ai/classifier.ts)\<close>

record ClassificationResult =
  cr_category :: string
  cr_confidence :: rat
  reasoning :: string

record TrainingData =
  td_description :: string
  td_category :: string
  td_keywords :: "string list"

definition mkTraining :: "string \<Rightarrow> string \<Rightarrow> string list \<Rightarrow> TrainingData" where
  "mkTraining d c ks = \<lparr>td_description = d, td_category = c, td_keywords = ks\<rparr>"

definition TRAINING_DATA :: "TrainingData list" where
  "TRAINING_DATA = [
     mkTraining ''rent payment'' ''Living Expenses'' [''rent'', ''rental'', ''apartment'', ''condo''],
     mkTraining ''mortgage payment'' ''Living Expenses'' [''mortgage'', ''home loan'', ''property payment''],
     mkTraining ''hydro bill'' ''Living Expenses'' [''hydro'', ''electricity'', ''electric'', ''power''],
     mkTraining ''internet service'' ''Living Expenses''
       [''internet'', ''wifi'', ''broadband'', ''rogers'', ''bell'', ''telus''],
     mkTraining ''phone bill'' ''Living Expenses'' [''phone'', ''mobile'', ''cellular'', ''wireless''],
     mkTraining ''insurance premium'' ''Living Expenses'' [''insurance'', ''premium'', ''coverage''],
     mkTraining ''property tax'' ''Living Expenses''
       [''property tax'', ''municipal tax'', ''real estate tax''],
     mkTraining ''supermarket purchase'' ''Groceries'' [''supermarket'', ''grocery'', ''food store''],
     mkTraining ''safeway'' ''Groceries'' [''safeway'', ''sobeys'', ''metro'', ''loblaws''],
     mkTraining ''walmart groceries'' ''Groceries'' [''walmart'', ''costco'', ''no frills'', ''freshco''],
     mkTraining ''farmers market'' ''Groceries'' [''farmers market'', ''fresh produce'', ''organic''],
     mkTraining ''restaurant dinner'' ''Restaurants'' [''restaurant'', ''dining'', ''cafe'', ''bistro''],
     mkTraining ''fast food'' ''Restaurants'' [''mcdonald'', ''burger king'', ''subway'', ''kfc''],
     mkTraining ''coffee shop'' ''Restaurants'' [''starbucks'', ''tim hortons'', ''coffee'', ''cafe''],
     mkTraining ''food delivery'' ''Restaurants''
       [''uber eats'', ''doordash'', ''skip dishes'', ''delivery''],
     mkTraining ''takeout'' ''Restaurants'' [''takeout'', ''take-out'', ''pickup'', ''order''],
     mkTraining ''gas station'' ''Car'' [''gas'', ''fuel'', ''petrol'', ''gasoline''],
     mkTraining ''shell'' ''Car'' [''shell'', ''esso'', ''petro-canada'', ''chevron''],
     mkTraining ''car insurance'' ''Car'' [''auto insurance'', ''car insurance'', ''vehicle insurance''],
     mkTraining ''car repair'' ''Car'' [''auto repair'', ''mechanic'', ''garage'', ''service''],
     mkTraining ''parking'' ''Car'' [''parking'', ''meter'', ''garage parking'', ''lot''],
     mkTraining ''car wash'' ''Car'' [''car wash'', ''auto wash'', ''detailing''],
     mkTraining ''movie theater'' ''Entertainment'' [''cinema'', ''movie'', ''theater'', ''film''],
     mkTraining ''streaming service'' ''Entertainment''
       [''netflix'', ''spotify'', ''amazon prime'', ''disney''],
     mkTraining ''concert tickets'' ''Entertainment'' [''concert'', ''show'', ''tickets'', ''event''],
     mkTraining ''gaming'' ''Entertainment'' [''steam'', ''playstation'', ''xbox'', ''nintendo''],
     mkTraining ''books'' ''Entertainment'' [''bookstore'', ''kindle'', ''chapters'', ''library''],
     mkTraining ''atm withdrawal'' ''Miscellaneous'' [''atm'', ''cash'', ''withdrawal''],
     mkTraining ''bank fee'' ''Miscellaneous'' [''fee'', ''charge'', ''service charge'', ''overdraft''],
     mkTraining ''transfer'' ''Miscellaneous'' [''transfer'', ''e-transfer'', ''wire''],
     mkTraining ''pharmacy'' ''Miscellaneous''
       [''pharmacy'', ''drugstore'', ''prescription'', ''medical'']]"

text \<open>
  The body of the loop over the training entries computes a score and a list of reasons
  for one entry: the exact phrase, the td_keywords, and the partial matches of every word
  against every keyword.
\<close>

definition exactMatch :: "string \<Rightarrow> TrainingData \<Rightarrow> rat \<times> string list" where
  "exactMatch normalizedDesc training =
     (if includes_str normalizedDesc (toLowerCase (td_description training))
      then (9/10, [''exact match: '' @ [dq] @ td_description training @ [dq]])
      else (0, []))"

definition keywordStep :: "string \<Rightarrow> rat \<times> string list \<Rightarrow> string \<Rightarrow> rat \<times> string list" where
  "keywordStep normalizedDesc acc keyword =
     (if includes_str normalizedDesc (toLowerCase keyword)
      then (fst acc + 7/10, snd acc @ [''keyword: '' @ [dq] @ keyword @ [dq]])
      else acc)"

definition partialStep :: "string \<Rightarrow> rat \<times> string list \<Rightarrow> string \<Rightarrow> rat \<times> string list" where
  "partialStep word acc keyword =
     (if includes_str (toLowerCase keyword) word \<or> includes_str word (toLowerCase keyword)
      then (fst acc + 3/10,
            snd acc @ [''partial match: '' @ [dq] @ word @ [dq] @ '' ~ '' @ [dq] @ keyword @ [dq]])
      else acc)"

definition entryScore :: "string \<Rightarrow> string list \<Rightarrow> TrainingData \<Rightarrow> rat \<times> string list" where
  "entryScore normalizedDesc words training =
     (let acc1 = exactMatch normalizedDesc training;
          acc2 = foldl (keywordStep normalizedDesc) acc1 (td_keywords training)
      in foldl (\<lambda>acc word. foldl (partialStep word) acc (td_keywords training)) acc2 words)"

text \<open>
  The two Maps of the source, \<open>categoryScores\<close> and \<open>categoryReasons\<close>, are association
  lists in insertion order: \<^const>\<open>AList.update\<close> replaces the value of a key in place and
  appends a new key at the end, as \<open>Map.prototype.set\<close> does.
\<close>

type_synonym scoreMaps = "(string \<times> rat) list \<times> (string \<times> string list) list"

definition getScore :: "(string \<times> rat) list \<Rightarrow> string \<Rightarrow> rat" where
  "getScore m k = (case map_of m k of Some v \<Rightarrow> v | None \<Rightarrow> 0)"

definition getReasons :: "(string \<times> string list) list \<Rightarrow> string \<Rightarrow> string list" where
  "getReasons m k = (case map_of m k of Some v \<Rightarrow> v | None \<Rightarrow> [])"

definition trainingStep :: "string \<Rightarrow> string list \<Rightarrow> scoreMaps \<Rightarrow> TrainingData \<Rightarrow> scoreMaps" where
  "trainingStep normalizedDesc words maps training =
     (let category = td_category training;
          maps1 = (if map_of (fst maps) category = None
                   then (AList.update category 0 (fst maps), AList.update category [] (snd maps))
                   else maps);
          sr = entryScore normalizedDesc words training
      in if fst sr > 0
         then (AList.update category (getScore (fst maps1) category + fst sr) (fst maps1),
               AList.update category (getReasons (snd maps1) category @ snd sr) (snd maps1))
         else maps1)"

definition categoryMaps :: "TrainingData list \<Rightarrow> string \<Rightarrow> scoreMaps" where
  "categoryMaps trainingData description =
     (let normalizedDesc = trim (toLowerCase description);
          words = split_whitespace normalizedDesc
      in foldl (trainingStep normalizedDesc words) ([], []) trainingData)"

definition bestStep ::
  "(string \<times> string list) list \<Rightarrow> string \<times> rat \<times> string list \<Rightarrow> string \<times> rat
     \<Rightarrow> string \<times> rat \<times> string list" where
  "bestStep categoryReasons best entry =
     (if snd entry > fst (snd best)
      then (fst entry, snd entry, getReasons categoryReasons (fst entry))
      else best)"

definition findBest :: "scoreMaps \<Rightarrow> string \<times> rat \<times> string list" where
  "findBest maps = foldl (bestStep (snd maps)) (''Miscellaneous'', 0, []) (fst maps)"

definition finalConfidence :: "rat \<Rightarrow> rat" where
  "finalConfidence bestScore =
     (let maxPossibleScore = 2;
          confidence = min (bestScore / maxPossibleScore) 1
      in if confidence > 1/2 then max confidence (7/10) else max confidence (4/10))"

definition classifyTransaction :: "TrainingData list \<Rightarrow> string \<Rightarrow> ClassificationResult" where
  "classifyTransaction trainingData description =
     (let best = findBest (categoryMaps trainingData description)
      in \<lparr>cr_category = fst best,
          cr_confidence = finalConfidence (fst (snd best)),
          reasoning = intercalate '', '' (take 3 (snd (snd best)))\<rparr>)"

definition classifyBatch :: "TrainingData list \<Rightarrow> string list \<Rightarrow> ClassificationResult list" where
  "classifyBatch trainingData descriptions = map (classifyTransaction trainingData) descriptions"

subsection \<open>The scores without the reasons\<close>

text \<open>
  The score that one training entry earns, in closed form: 0.9 for the exact phrase, 0.7
  for every keyword found in the description, 0.3 for every pair of a word and a keyword
  of which one contains the other. \<open>scoreStep\<close> and \<open>bestPair\<close> are the two loops of
  \<open>classifyTransaction\<close> restricted to the scores.
\<close>

definition keywordHits :: "string \<Rightarrow> TrainingData \<Rightarrow> nat" where
  "keywordHits normalizedDesc training =
     length (filter (\<lambda>k. includes_str normalizedDesc (toLowerCase k)) (td_keywords training))"

definition partialHits :: "string \<Rightarrow> TrainingData \<Rightarrow> nat" where
  "partialHits word training =
     length (filter (\<lambda>k. includes_str (toLowerCase k) word \<or> includes_str word (toLowerCase k))
       (td_keywords training))"

definition entryPoints :: "string \<Rightarrow> string list \<Rightarrow> TrainingData \<Rightarrow> rat" where
  "entryPoints normalizedDesc words training =
     (if includes_str normalizedDesc (toLowerCase (td_description training)) then 9/10 else 0)
     + 7/10 * of_nat (keywordHits normalizedDesc training)
     + 3/10 * of_nat (sum_list (map (\<lambda>w. partialHits w training) words))"

definition scoreStep :: "rat \<Rightarrow> string \<Rightarrow> (string \<times> rat) list \<Rightarrow> (string \<times> rat) list" where
  "scoreStep p category m =
     (let m1 = (if map_of m category = None then AList.update category 0 m else m)
      in if p > 0 then AList.update category (getScore m1 category + p) m1 else m1)"

definition bestPair :: "string \<times> rat \<Rightarrow> string \<times> rat \<Rightarrow> string \<times> rat" where
  "bestPair best entry = (if snd entry > snd best then entry else best)"

definition winningScore :: "TrainingData list \<Rightarrow> string \<Rightarrow> rat" where
  \<comment> \<open>the largest accumulated category score, 0 when no category has a positive score\<close>
  "winningScore trainingData description =
     Max (insert 0 (snd ` set (fst (categoryMaps trainingData description))))"

definition keywordCount :: "TrainingData list \<Rightarrow> string \<Rightarrow> nat" where
  \<comment> \<open>the number of keywords of all the training entries of one category\<close>
  "keywordCount trainingData category =
     sum_list (map (\<lambda>t. length (td_keywords t))
       (filter (\<lambda>t. td_category t = category) trainingData))"

section \<open>The line parser (src/utils/transactionProcessor.ts)\<close>

record RawTransaction =
  date :: string
  description :: string
  amount :: rat

subsection \<open>String operations and the regular expressions of the parser\<close>

fun splitChar :: "char \<Rightarrow> string \<Rightarrow> string \<Rightarrow> string list" where
  \<comment> \<open>\<open>s.split(sep)\<close> for a separator of one character; the second argument is the
      current piece, reversed\<close>
  "splitChar sep cur [] = [rev cur]"
| "splitChar sep cur (c # cs) =
     (if c = sep then rev cur # splitChar sep [] cs else splitChar sep (c # cur) cs)"

definition padStart2 :: "string \<Rightarrow> string" where
  \<comment> \<open>\<open>s.padStart(2, '0')\<close>\<close>
  "padStart2 s = replicate (2 - length s) (CHR ''0'') @ s"

definition digitChar :: "nat \<Rightarrow> char" where
  "digitChar n = char_of (48 + n)"

fun showNat :: "nat \<Rightarrow> string" where
  \<comment> \<open>the decimal digits of a non-negative integer, as \<open>String(n)\<close> writes them\<close>
  "showNat n = (if n < 10 then [digitChar n] else showNat (n div 10) @ [digitChar (n mod 10)])"

primrec matchClasses :: "(char \<Rightarrow> bool) list \<Rightarrow> string \<Rightarrow> string option" where
  \<comment> \<open>a sequence of character classes, one character each, at the start of the string\<close>
  "matchClasses [] s = Some []"
| "matchClasses (p # ps) s =
     (case s of
        [] \<Rightarrow> None
      | c # cs \<Rightarrow> if p c then map_option ((#) c) (matchClasses ps cs) else None)"

definition isoDatePattern :: "(char \<Rightarrow> bool) list" where
  \<comment> \<open>\<open>\d{4}-\d{2}-\d{2}\<close>\<close>
  "isoDatePattern =
     [isDigit, isDigit, isDigit, isDigit, (=) (CHR ''-''), isDigit, isDigit,
      (=) (CHR ''-''), isDigit, isDigit]"

definition slashDatePattern :: "(char \<Rightarrow> bool) list" where
  \<comment> \<open>\<open>\d{2}\/\d{2}\/\d{4}\<close>\<close>
  "slashDatePattern =
     [isDigit, isDigit, (=) (CHR ''/''), isDigit, isDigit, (=) (CHR ''/''),
      isDigit, isDigit, isDigit, isDigit]"

definition matchSpacesWord :: "string \<Rightarrow> string option" where
  \<comment> \<open>\<open>\s+\w{3}\<close>: the run of white space is taken whole, since a shorter run would
      leave a white space character where \<open>\w\<close> has to match\<close>
  "matchSpacesWord s =
     (let ws = takeWhile isWhiteSpace s
      in if ws = [] then None
         else map_option ((@) ws)
                (matchClasses [isWordChar, isWordChar, isWordChar] (dropWhile isWhiteSpace s)))"

definition matchDayMonth :: "string \<Rightarrow> string option" where
  \<comment> \<open>\<open>\d{1,2}\s+\w{3}\<close> at the start of the string: two digits are tried before one\<close>
  "matchDayMonth s =
     (case s of
        [] \<Rightarrow> None
      | d1 # rest \<Rightarrow>
          if \<not> isDigit d1 then None
          else (case (case rest of
                        d2 # rest2 \<Rightarrow>
                          if isDigit d2 then map_option (\<lambda>m. d1 # d2 # m) (matchSpacesWord rest2)
                          else None
                      | [] \<Rightarrow> None) of
                  Some m \<Rightarrow> Some m
                | None \<Rightarrow> map_option ((#) d1) (matchSpacesWord rest)))"

definition matchTransactionPattern :: "string \<Rightarrow> string option" where
  \<comment> \<open>the three alternatives of \<open>transactionPattern\<close>, in their order, at the start\<close>
  "matchTransactionPattern s =
     (case matchDayMonth s of
        Some m \<Rightarrow> Some m
      | None \<Rightarrow>
          (case matchClasses isoDatePattern s of
             Some m \<Rightarrow> Some m
           | None \<Rightarrow> matchClasses slashDatePattern s))"

primrec firstMatch :: "(string \<Rightarrow> string option) \<Rightarrow> string \<Rightarrow> string option" where
  \<comment> \<open>\<open>s.match(re)\<close> for an unanchored expression: the leftmost position that matches\<close>
  "firstMatch m [] = m []"
| "firstMatch m (c # cs) = (case m (c # cs) of Some r \<Rightarrow> Some r | None \<Rightarrow> firstMatch m cs)"

definition stripAtStart :: "(string \<Rightarrow> string option) \<Rightarrow> string \<Rightarrow> string" where
  \<comment> \<open>\<open>s.replace(/^.../, '')\<close>\<close>
  "stripAtStart m s = (case m s of Some r \<Rightarrow> drop (length r) s | None \<Rightarrow> s)"

definition isAmountChar :: "char \<Rightarrow> bool" where
  \<comment> \<open>\<open>[\d,]\<close>\<close>
  "isAmountChar c = (isDigit c \<or> c = CHR '','')"

definition matchAmount :: "string \<Rightarrow> string option" where
  \<comment> \<open>\<open>[\d,]+\.\d{2}\<close> at the start of the string: the run of digits and commas is
      taken whole, since a shorter run would leave a digit or a comma where the point
      has to match\<close>
  "matchAmount s =
     (let run = takeWhile isAmountChar s
      in if run = [] then None
         else map_option ((@) run)
                (matchClasses [(=) (CHR ''.''), isDigit, isDigit] (dropWhile isAmountChar s)))"

fun amountScan :: "nat \<Rightarrow> string \<Rightarrow> string list" where
  \<comment> \<open>\<open>s.match(/[\d,]+\.\d{2}/g)\<close>: every match from left to right, the search going on
      where the last match ended; the counter is the number of characters of the last
      match still to skip. The empty list stands for \<open>null\<close>.\<close>
  "amountScan skip [] = []"
| "amountScan (Suc k) (c # cs) = amountScan k cs"
| "amountScan 0 (c # cs) =
     (case matchAmount (c # cs) of
        Some m \<Rightarrow> m # amountScan (length m - 1) cs
      | None \<Rightarrow> amountScan 0 cs)"

definition amountMatches :: "string \<Rightarrow> string list" where
  "amountMatches s = amountScan 0 s"

fun removeFirst :: "string \<Rightarrow> string \<Rightarrow> string" where
  \<comment> \<open>\<open>s.replace(sub, '')\<close> for a string \<open>sub\<close>: the first occurrence is removed\<close>
  "removeFirst sub [] = []"
| "removeFirst sub (c # cs) =
     (if startsWith (c # cs) sub then drop (length sub) (c # cs) else c # removeFirst sub cs)"

definition digitValue :: "char \<Rightarrow> nat" where
  "digitValue c = of_char c - 48"

definition decimalValue :: "string \<Rightarrow> nat" where
  \<comment> \<open>the number a string of decimal digits denotes, 0 for the empty string\<close>
  "decimalValue ds = foldl (\<lambda>n c. 10 * n + digitValue c) 0 ds"

definition parseFloat :: "string \<Rightarrow> rat option" where
  \<comment> \<open>\<open>parseFloat\<close> on an unsigned decimal: the longest prefix of digits, a point and
      digits; \<open>None\<close> is NaN. The parser applies it to matches of \<open>[\d,]+\.\d{2}\<close> with
      the commas removed, which have no sign, exponent or leading white space.\<close>
  "parseFloat s =
     (let ip = takeWhile isDigit s;
          rest = dropWhile isDigit s;
          fp = (case rest of c # cs \<Rightarrow> if c = CHR ''.'' then takeWhile isDigit cs else [] | [] \<Rightarrow> [])
      in if ip = [] \<and> fp = [] then None
         else Some (of_nat (decimalValue ip) + of_nat (decimalValue fp) / 10 ^ length fp))"

subsection \<open>The functions of the module\<close>

definition getMonthNumber :: "string \<Rightarrow> nat" where
  \<comment> \<open>\<open>months[monthStr] || 1\<close>. The parser calls it with the second piece of a date
      match (three word characters, or white space before them), which is never the name
      of an inherited property of the object \<open>months\<close>.\<close>
  "getMonthNumber monthStr =
     (case map_of [(''Jan'', 1), (''Feb'', 2), (''Mar'', 3), (''Apr'', 4), (''May'', 5),
                   (''Jun'', 6), (''Jul'', 7), (''Aug'', 8), (''Sep'', 9), (''Oct'', 10),
                   (''Nov'', 11), (''Dec'', 12)] monthStr of
        Some n \<Rightarrow> n
      | None \<Rightarrow> 1)"

definition parseBankDate :: "nat \<Rightarrow> string \<Rightarrow> string" where
  \<comment> \<open>the first argument is \<open>new Date().getFullYear()\<close>. A string with a slash splits
      into two pieces or more, so the last case of the slash branch is not reached; with
      two pieces only, the year of the destructuring is \<open>undefined\<close>.\<close>
  "parseBankDate currentYear dateStr =
     (if includes_str dateStr ''-'' then dateStr
      else if includes_str dateStr ''/'' then
        (case splitChar (CHR ''/'') [] dateStr of
           month # day # rest \<Rightarrow>
             (case rest of [] \<Rightarrow> ''undefined'' | year # _ \<Rightarrow> year)
               @ ''-'' @ padStart2 month @ ''-'' @ padStart2 day
         | _ \<Rightarrow> dateStr)
      else
        (case splitChar (CHR '' '') [] dateStr of
           [day, month] \<Rightarrow>
             showNat currentYear @ ''-'' @ padStart2 (showNat (getMonthNumber month))
               @ ''-'' @ padStart2 day
         | _ \<Rightarrow> dateStr))"

definition cleanLine :: "string \<Rightarrow> string" where
  \<comment> \<open>the three anchored replacements and the trim that open
      \<open>extractDescriptionAndAmount\<close>\<close>
  "cleanLine line =
     trim (stripAtStart (matchClasses slashDatePattern)
            (stripAtStart (matchClasses isoDatePattern)
              (stripAtStart matchDayMonth line)))"

definition debitIndicator :: "string \<Rightarrow> bool" where
  "debitIndicator s =
     (includes_str s ''Withdrawal'' \<or> includes_str s ''Debit'' \<or>
      includes_str s ''Purchase'' \<or> includes_str s ''Payment'')"

definition extractDescriptionAndAmount :: "string \<Rightarrow> string \<times> rat" where
  \<comment> \<open>the pair of the description and the amount. A match of the amount expression
      always parses to a number (\<open>parseFloat_amount_token\<close>), so the case of NaN is
      not reached.\<close>
  "extractDescriptionAndAmount line =
     (let cl = cleanLine line;
          ms = amountMatches cl
      in if ms \<noteq> [] then
           (let amountStr = last ms;
                amount = (case parseFloat (filter (\<lambda>c. c \<noteq> CHR '','') amountStr) of
                            Some a \<Rightarrow> a
                          | None \<Rightarrow> 0);
                description = trim (removeFirst amountStr cl)
            in (description, if debitIndicator cl then - amount else amount))
         else (cl, 0))"

primrec collapseWs :: "bool \<Rightarrow> string \<Rightarrow> string" where
  \<comment> \<open>\<open>s.replace(/\s+/g, ' ')\<close>; the flag says that the scan is inside a run of white
      space\<close>
  "collapseWs inRun [] = []"
| "collapseWs inRun (c # cs) =
     (if isWhiteSpace c
      then (if inRun then collapseWs True cs else CHR '' '' # collapseWs True cs)
      else c # collapseWs False cs)"

definition descriptionPrefixes :: "string list" where
  "descriptionPrefixes =
     [''e:'', ''Contactless Interac purchase'', ''Visa Debit purchase'', ''Misc Payment'',
      ''Online Banking payment'', ''Transfer sent'', ''Payroll Deposit'']"

definition upperAscii :: "char \<Rightarrow> char" where
  "upperAscii c =
     (let n = (of_char c :: nat) in if 97 \<le> n \<and> n \<le> 122 then char_of (n - 32) else c)"

definition startsWithIgnoreCase :: "string \<Rightarrow> string \<Rightarrow> bool" where
  \<comment> \<open>a literal of the \<open>/i\<close> expression at the start of the string: the characters are
      compared by their upper case; the literals are ASCII, and no character outside
      ASCII has an ASCII upper case\<close>
  "startsWithIgnoreCase s p = startsWith (map upperAscii s) (map upperAscii p)"

definition stripPrefix :: "string \<Rightarrow> string" where
  \<comment> \<open>the first alternative that matches at the start is removed\<close>
  "stripPrefix s =
     (case filter (startsWithIgnoreCase s) descriptionPrefixes of
        p # _ \<Rightarrow> drop (length p) s
      | [] \<Rightarrow> s)"

definition stripReference :: "string \<Rightarrow> string" where
  \<comment> \<open>\<open>s.replace(/\d{4}$/, '')\<close>\<close>
  "stripReference s =
     (let n = length s
      in if 4 \<le> n \<and> list_all isDigit (drop (n - 4) s) then take (n - 4) s else s)"

definition cleanDescription :: "string \<Rightarrow> string" where
  "cleanDescription d = trim (stripReference (stripPrefix (collapseWs False d)))"

definition headerLine :: "string \<Rightarrow> bool" where
  "headerLine line =
     (line = [] \<or> includes_str line ''Date'' \<or> includes_str line ''Description'' \<or>
      includes_str line ''Balance'')"

definition parseLine :: "nat \<Rightarrow> string \<Rightarrow> RawTransaction list" where
  \<comment> \<open>the body of the loop over the lines: the records it pushes (none or one)\<close>
  "parseLine currentYear rawLine =
     (let line = trim rawLine
      in if headerLine line then []
         else (case firstMatch matchTransactionPattern line of
                 None \<Rightarrow> []
               | Some dateMatch \<Rightarrow>
                   (let da = extractDescriptionAndAmount line
                    in if fst da \<noteq> []
                       then [\<lparr>date = parseBankDate currentYear dateMatch,
                              description = cleanDescription (fst da),
                              amount = snd da\<rparr>]
                       else [])))"

definition parseTransactionText :: "nat \<Rightarrow> string \<Rightarrow> RawTransaction list" where
  "parseTransactionText currentYear text =
     filter (\<lambda>t. amount t \<noteq> 0)
       (concat (map (parseLine currentYear) (splitChar (CHR 0x0A) [] text)))"

section \<open>JSON values and \<open>JSON.parse\<close>\<close>

text \<open>
  The values that \<open>JSON.parse\<close> returns. An object is the list of its members in the
  order of the text; a later member with the same key hides an earlier one. A number is
  the exact decimal value of its literal.
\<close>

datatype json =
    JNull
  | JBool bool
  | JNum rat
  | JStr string
  | JArr "json list"
  | JObj "(string \<times> json) list"

definition isJsonWs :: "char \<Rightarrow> bool" where
  \<comment> \<open>the white space of the JSON grammar: space, tab, line feed, carriage return\<close>
  "isJsonWs c = (c \<in> set [CHR 0x20, CHR 0x09, CHR 0x0A, CHR 0x0D])"

definition skipWs :: "string \<Rightarrow> string" where
  "skipWs s = dropWhile isJsonWs s"

definition hexValue :: "char \<Rightarrow> nat option" where
  "hexValue c =
     (let n = (of_char c :: nat)
      in if 48 \<le> n \<and> n \<le> 57 then Some (n - 48)
         else if 65 \<le> n \<and> n \<le> 70 then Some (n - 55)
         else if 97 \<le> n \<and> n \<le> 102 then Some (n - 87)
         else None)"

definition hex4 :: "char \<Rightarrow> char \<Rightarrow> char \<Rightarrow> char \<Rightarrow> nat option" where
  "hex4 a b c d =
     (case (hexValue a, hexValue b, hexValue c, hexValue d) of
        (Some w, Some x, Some y, Some z) \<Rightarrow> Some (4096 * w + 256 * x + 16 * y + z)
      | _ \<Rightarrow> None)"

definition escapeChar :: "char \<Rightarrow> char option" where
  \<comment> \<open>the character after a backslash, \<open>u\<close> apart\<close>
  "escapeChar e =
     (if e = dq then Some dq
      else if e = CHR 0x5C then Some (CHR 0x5C)
      else if e = CHR ''/'' then Some (CHR ''/'')
      else if e = CHR ''b'' then Some (CHR 0x08)
      else if e = CHR ''f'' then Some (CHR 0x0C)
      else if e = CHR ''n'' then Some (CHR 0x0A)
      else if e = CHR ''r'' then Some (CHR 0x0D)
      else if e = CHR ''t'' then Some (CHR 0x09)
      else None)"

fun parseStringBody :: "string \<Rightarrow> string \<Rightarrow> (string \<times> string) option" where
  \<comment> \<open>a string literal after its opening quote: the string and the rest of the text.
      The first argument is the string read so far, reversed. An escape above
      \<open>\u00FF\<close> denotes a character outside the alphabet of the model; such a text is
      outside the model, and the function returns \<open>None\<close> for it.\<close>
  "parseStringBody acc [] = None"
| "parseStringBody acc (c # cs) =
     (if c = dq then Some (rev acc, cs)
      else if c = CHR 0x5C then
        (case cs of
           [] \<Rightarrow> None
         | e # rest \<Rightarrow>
             if e = CHR ''u'' then
               (case rest of
                  h1 # h2 # h3 # h4 # rest' \<Rightarrow>
                    (case hex4 h1 h2 h3 h4 of
                       Some n \<Rightarrow> if n < 256 then parseStringBody (char_of n # acc) rest' else None
                     | None \<Rightarrow> None)
                | _ \<Rightarrow> None)
             else (case escapeChar e of
                     Some x \<Rightarrow> parseStringBody (x # acc) rest
                   | None \<Rightarrow> None))
      else if (of_char c :: nat) < 32 then None
      else parseStringBody (c # acc) cs)"

definition parseExponent :: "string \<Rightarrow> (int \<times> string) option" where
  \<comment> \<open>the optional exponent of a number: \<open>[eE][+-]?\d+\<close>\<close>
  "parseExponent s =
     (case s of
        [] \<Rightarrow> Some (0, [])
      | c # cs \<Rightarrow>
          if c = CHR ''e'' \<or> c = CHR ''E'' then
            (let neg = (case cs of d # _ \<Rightarrow> d = CHR ''-'' | [] \<Rightarrow> False);
                 ds = (case cs of d # ds' \<Rightarrow> if d = CHR ''-'' \<or> d = CHR ''+'' then ds' else cs
                       | [] \<Rightarrow> []);
                 digits = takeWhile isDigit ds
             in if digits = [] then None
                else Some ((if neg then - int (decimalValue digits) else int (decimalValue digits)),
                           dropWhile isDigit ds))
          else Some (0, s))"

definition parseNumber :: "string \<Rightarrow> (rat \<times> string) option" where
  \<comment> \<open>\<open>-?(0|[1-9]\d*)(\.\d+)?([eE][+-]?\d+)?\<close>\<close>
  "parseNumber s =
     (let neg = (case s of c # _ \<Rightarrow> c = CHR ''-'' | [] \<Rightarrow> False);
          s1 = (if neg then tl s else s);
          ip = takeWhile isDigit s1;
          s2 = dropWhile isDigit s1
      in if ip = [] \<or> (hd ip = CHR ''0'' \<and> length ip > 1) then None
         else
           (let hasFrac = (case s2 of c # _ \<Rightarrow> c = CHR ''.'' | [] \<Rightarrow> False);
                fp = (if hasFrac then takeWhile isDigit (tl s2) else []);
                s3 = (if hasFrac then dropWhile isDigit (tl s2) else s2)
            in if hasFrac \<and> fp = [] then None
               else (case parseExponent s3 of
                       None \<Rightarrow> None
                     | Some (e, s4) \<Rightarrow>
                         (let m = of_nat (decimalValue ip) + of_nat (decimalValue fp) / 10 ^ length fp;
                              v = (if e < 0 then m / 10 ^ nat (- e) else m * 10 ^ nat e)
                          in Some (if neg then - v else v, s4)))))"

fun parseValue :: "nat \<Rightarrow> string \<Rightarrow> (json \<times> string) option"
  and parseElements :: "nat \<Rightarrow> json list \<Rightarrow> string \<Rightarrow> (json \<times> string) option"
  and parseMembers :: "nat \<Rightarrow> (string \<times> json) list \<Rightarrow> string \<Rightarrow> (json \<times> string) option"
where
  \<comment> \<open>a recursive descent parser; the first argument bounds the number of nested calls,
      and \<open>JSON_parse\<close> starts it with more than any text of that length needs (see
      \<open>JSON_parse_fuel\<close>)\<close>
  "parseValue 0 s = None"
| "parseValue (Suc n) s =
     (case skipWs s of
        [] \<Rightarrow> None
      | c # cs \<Rightarrow>
          if c = CHR ''{'' then
            (case skipWs cs of
               [] \<Rightarrow> None
             | d # ds \<Rightarrow> if d = CHR ''}'' then Some (JObj [], ds) else parseMembers n [] (d # ds))
          else if c = CHR ''['' then
            (case skipWs cs of
               [] \<Rightarrow> None
             | d # ds \<Rightarrow> if d = CHR '']'' then Some (JArr [], ds) else parseElements n [] (d # ds))
          else if c = dq then
            map_option (\<lambda>r. (JStr (fst r), snd r)) (parseStringBody [] cs)
          else if startsWith (c # cs) ''true'' then Some (JBool True, drop 4 (c # cs))
          else if startsWith (c # cs) ''false'' then Some (JBool False, drop 5 (c # cs))
          else if startsWith (c # cs) ''null'' then Some (JNull, drop 4 (c # cs))
          else map_option (\<lambda>r. (JNum (fst r), snd r)) (parseNumber (c # cs)))"
| "parseElements 0 acc s = None"
| "parseElements (Suc n) acc s =
     (case parseValue n s of
        None \<Rightarrow> None
      | Some r \<Rightarrow>
          (case skipWs (snd r) of
             [] \<Rightarrow> None
           | c # cs \<Rightarrow>
               if c = CHR '','' then parseElements n (fst r # acc) cs
               else if c = CHR '']'' then Some (JArr (rev (fst r # acc)), cs)
               else None))"
| "parseMembers 0 acc s = None"
| "parseMembers (Suc n) acc s =
     (case skipWs s of
        [] \<Rightarrow> None
      | q # qs \<Rightarrow>
          if q \<noteq> dq then None
          else (case parseStringBody [] qs of
                  None \<Rightarrow> None
                | Some k \<Rightarrow>
                    (case skipWs (snd k) of
                       [] \<Rightarrow> None
                     | c # cs \<Rightarrow>
                         if c \<noteq> CHR '':'' then None
                         else (case parseValue n cs of
                                 None \<Rightarrow> None
                               | Some r \<Rightarrow>
                                   (case skipWs (snd r) of
                                      [] \<Rightarrow> None
                                    | d # ds \<Rightarrow>
                                        if d = CHR '','' then parseMembers n ((fst k, fst r) # acc) ds
                                        else if d = CHR ''}''
                                        then Some (JObj (rev ((fst k, fst r) # acc)), ds)
                                        else None)))))"

definition JSON_parse :: "string \<Rightarrow> json option" where
  \<comment> \<open>\<open>JSON.parse(text)\<close>; \<open>None\<close> is the SyntaxError\<close>
  "JSON_parse s =
     (case parseValue (2 * length s + 2) s of
        None \<Rightarrow> None
      | Some r \<Rightarrow> if skipWs (snd r) = [] then Some (fst r) else None)"

section \<open>The AI response route (processTransactionText, src/unnamed/part_006)\<close>

text \<open>
  The part of \<open>processTransactionText\<close> that follows the call of the language model:
  the function of the response text that the route returns. A property that is read
  from a value is \<open>Some v\<close>, or \<open>None\<close> for \<open>undefined\<close>.
\<close>

datatype error =
    NoResponse      \<comment> \<open>\<open>throw new Error('No response from OpenAI')\<close>\<close>
  | ParseFailure    \<comment> \<open>the \<open>catch (parseError)\<close> branch: 'Failed to parse AI response'\<close>
  | TypeError       \<comment> \<open>a TypeError of the runtime, which the outer \<open>catch\<close> turns into
                        'Failed to process transaction text'\<close>

datatype confidence =
    Conf rat
  | Coerced json    \<comment> \<open>the clamp of \<open>ToNumber v\<close> for a truthy \<open>v\<close> that is a string, an array
                        or an object; the model does not evaluate the coercion\<close>

record AITransaction =
  txn_id :: json
  txn_date :: json
  txn_description :: string
  txn_amount :: rat
  txn_category :: string
  txn_confidence :: confidence

record ProcessedData =
  transactions :: "AITransaction list"
  totalAmount :: rat
  summary :: "(string \<times> rat) list"

definition CATEGORIES :: "string list" where
  "CATEGORIES =
     [''Living Expenses'', ''Groceries'', ''Restaurants'', ''Car'', ''Entertainment'',
      ''Miscellaneous'']"

definition spanFirstToLast :: "char \<Rightarrow> char \<Rightarrow> string \<Rightarrow> string option" where
  \<comment> \<open>the part of the string from the first \<open>ob\<close> to the last \<open>cb\<close> after it\<close>
  "spanFirstToLast ob cb s =
     (let fromBrace = dropWhile (\<lambda>c. c \<noteq> ob) s
      in if fromBrace \<noteq> [] \<and> cb \<in> set (tl fromBrace)
         then Some (rev (dropWhile (\<lambda>c. c \<noteq> cb) (rev fromBrace)))
         else None)"

definition jsonMatch :: "string \<Rightarrow> string option" where
  \<comment> \<open>\<open>aiResponse.match(/\{[\s\S]*\}/)\<close>: the expression is greedy, so the match runs
      from the first \<open>{\<close> to the last \<open>}\<close> after it\<close>
  "jsonMatch s = spanFirstToLast (CHR ''{'') (CHR ''}'') s"

definition parseAIResponse :: "string \<Rightarrow> json option" where
  \<comment> \<open>the \<open>try\<close> block; \<open>None\<close> is its \<open>catch\<close> branch\<close>
  "parseAIResponse aiResponse =
     (case jsonMatch aiResponse of
        Some m \<Rightarrow> JSON_parse m
      | None \<Rightarrow> JSON_parse aiResponse)"

definition getProp :: "json \<Rightarrow> string \<Rightarrow> json option" where
  \<comment> \<open>\<open>v.key\<close> for a value other than \<open>null\<close> and one of the keys the route reads
      (transactions, id, date, description, amount, category, confidence), none of which
      is a property of a string, a number, a boolean, an array or of \<open>Object.prototype\<close>\<close>
  "getProp v key = (case v of JObj members \<Rightarrow> map_of (rev members) key | _ \<Rightarrow> None)"

fun truthy :: "json option \<Rightarrow> bool" where
  "truthy None = False"
| "truthy (Some JNull) = False"
| "truthy (Some (JBool b)) = b"
| "truthy (Some (JNum n)) = (n \<noteq> 0)"
| "truthy (Some (JStr s)) = (s \<noteq> [])"
| "truthy (Some (JArr xs)) = True"
| "truthy (Some (JObj ms)) = True"

fun dateRegexTest :: "json \<Rightarrow> bool" where
  \<comment> \<open>\<open>/^\d{4}-\d{2}-\d{2}$/.test(v)\<close>, which tests \<open>String(v)\<close>. The string of an array
      of one element is the string of the element (the empty string for \<open>null\<close>), and
      the string of a longer array has a comma; the string of a number, of a boolean,
      of \<open>null\<close> and of an object ("[object Object]") never matches.\<close>
  "dateRegexTest (JStr s) = (matchClasses isoDatePattern s = Some s)"
| "dateRegexTest (JArr [v]) = dateRegexTest v"
| "dateRegexTest _ = False"

definition mathRound :: "rat \<Rightarrow> rat" where
  \<comment> \<open>\<open>Math.round\<close>: the nearest integer, a half rounded up\<close>
  "mathRound x = of_int \<lfloor>x + 1/2\<rfloor>"

definition round2 :: "rat \<Rightarrow> rat" where
  \<comment> \<open>\<open>Math.round(x * 100) / 100\<close>\<close>
  "round2 x = mathRound (x * 100) / 100"

definition clamp :: "rat \<Rightarrow> rat" where
  \<comment> \<open>\<open>Math.min(Math.max(x, 0.5), 1.0)\<close>\<close>
  "clamp x = min (max x (1/2)) 1"

definition normalizeConfidence :: "json option \<Rightarrow> confidence" where
  \<comment> \<open>\<open>Math.min(Math.max(transaction.confidence || 0.8, 0.5), 1.0)\<close>\<close>
  "normalizeConfidence c =
     (if truthy c then
        (case c of
           Some (JNum n) \<Rightarrow> Conf (clamp n)
         | Some (JBool b) \<Rightarrow> Conf (clamp 1)
         | Some v \<Rightarrow> Coerced v
         | None \<Rightarrow> Conf (clamp (8/10)))
      else Conf (clamp (8/10)))"

definition padStart3 :: "string \<Rightarrow> string" where
  \<comment> \<open>\<open>s.padStart(3, '0')\<close>\<close>
  "padStart3 s = replicate (3 - length s) (CHR ''0'') @ s"

definition orElse :: "json option \<Rightarrow> json \<Rightarrow> json" where
  \<comment> \<open>\<open>v || d\<close>\<close>
  "orElse v d = (case v of Some x \<Rightarrow> if truthy v then x else d | None \<Rightarrow> d)"

definition emitTransaction :: "nat \<Rightarrow> json \<Rightarrow> json \<Rightarrow> string \<Rightarrow> rat \<Rightarrow> AITransaction" where
  \<comment> \<open>the record that is pushed for an entry with the date \<open>dateV\<close>, the description
      string \<open>d\<close> and the numeric amount \<open>a\<close>\<close>
  "emitTransaction index transaction dateV d a =
     (let amount = (if a > 0 then - \<bar>a\<bar> else a);
          category =
            (case getProp transaction ''category'' of
               Some (JStr c) \<Rightarrow> if c \<in> set CATEGORIES then c else ''Miscellaneous''
             | _ \<Rightarrow> ''Miscellaneous'')
      in \<lparr>txn_id = orElse (getProp transaction ''id'')
                      (JStr (''txn_'' @ padStart3 (showNat (index + 1)))),
          txn_date = dateV,
          txn_description = trim d,
          txn_amount = round2 amount,
          txn_category = category,
          txn_confidence = normalizeConfidence (getProp transaction ''confidence'')\<rparr>)"

definition validateEntry :: "nat \<Rightarrow> json \<Rightarrow> error + AITransaction option" where
  \<comment> \<open>the callback of \<open>rawTransactions.forEach\<close>: \<open>Inr None\<close> is a \<open>return\<close> without a
      push, \<open>Inr (Some t)\<close> the record pushed, \<open>Inl\<close> an exception (reading a property of
      \<open>null\<close>, or calling \<open>trim\<close> on a description that is not a string)\<close>
  "validateEntry index transaction =
     (if transaction = JNull then Inl TypeError
      else
        (case (getProp transaction ''date'', getProp transaction ''description'',
               getProp transaction ''amount'') of
           (Some dateV, Some descV, Some (JNum a)) \<Rightarrow>
             if \<not> truthy (Some dateV) \<or> \<not> truthy (Some descV) then Inr None
             else if \<not> dateRegexTest dateV then Inr None
             else (case descV of
                     JStr d \<Rightarrow> Inr (Some (emitTransaction index transaction dateV d a))
                   | _ \<Rightarrow> Inl TypeError)
         | _ \<Rightarrow> Inr None))"

fun validateAll :: "nat \<Rightarrow> json list \<Rightarrow> error + AITransaction list" where
  \<comment> \<open>\<open>rawTransactions.forEach(...)\<close> from the given index on: the array
      \<open>validTransactions\<close>, or the exception that ends the loop\<close>
  "validateAll index [] = Inr []"
| "validateAll index (t # ts) =
     (case validateEntry index t of
        Inl e \<Rightarrow> Inl e
      | Inr r \<Rightarrow>
          (case validateAll (Suc index) ts of
             Inl e \<Rightarrow> Inl e
           | Inr rs \<Rightarrow> Inr (case r of None \<Rightarrow> rs | Some x \<Rightarrow> x # rs)))"

definition rawTransactions :: "json \<Rightarrow> error + json list" where
  \<comment> \<open>\<open>parsedData.transactions || []\<close>, and the TypeError of \<open>forEach\<close> on a truthy value
      that is not an array\<close>
  "rawTransactions parsedData =
     (if parsedData = JNull then Inl TypeError
      else if truthy (getProp parsedData ''transactions'')
      then (case getProp parsedData ''transactions'' of
              Some (JArr xs) \<Rightarrow> Inr xs
            | _ \<Rightarrow> Inl TypeError)
      else Inr [])"

definition absSum :: "AITransaction list \<Rightarrow> rat" where
  \<comment> \<open>\<open>.reduce((sum, t) => sum + Math.abs(t.amount), 0)\<close>\<close>
  "absSum ts = foldl (\<lambda>sum t. sum + \<bar>txn_amount t\<bar>) 0 ts"

definition summarize :: "AITransaction list \<Rightarrow> (string \<times> rat) list" where
  \<comment> \<open>the object built by \<open>CATEGORIES.reduce\<close>, its keys in the order of \<open>CATEGORIES\<close>,
      and the rounding of its values\<close>
  "summarize validTransactions =
     map (\<lambda>kv. (fst kv, round2 (snd kv)))
       (map (\<lambda>category. (category, absSum (filter (\<lambda>t. txn_category t = category) validTransactions)))
          CATEGORIES)"

definition processResponse :: "string \<Rightarrow> error + ProcessedData" where
  "processResponse aiResponse =
     (if aiResponse = [] then Inl NoResponse
      else (case parseAIResponse aiResponse of
              None \<Rightarrow> Inl ParseFailure
            | Some parsedData \<Rightarrow>
                (case rawTransactions parsedData of
                   Inl e \<Rightarrow> Inl e
                 | Inr raws \<Rightarrow>
                     (case validateAll 0 raws of
                        Inl e \<Rightarrow> Inl e
                      | Inr validTransactions \<Rightarrow>
                          Inr \<lparr>transactions = validTransactions,
                               totalAmount = round2 (absSum validTransactions),
                               summary = summarize validTransactions\<rparr>))))"

section \<open>The PDF route (src/app/api/process-pdf/route.ts)\<close>

text \<open>
  The part of the route that follows the extraction of the text from the PDF: the local
  pipeline of the line parser and the keyword classifier. The training table, the name
  of the file and the current year are arguments.
\<close>

record Transaction = RawTransaction +
  tid :: string
  category :: string
  confidence :: rat







section \<open>Response texts of the scenarios\<close>

definition quote :: "string \<Rightarrow> string" where
  \<comment> \<open>a string between double quotes\<close>
  "quote s = [dq] @ s @ [dq]"



definition zeroConfidenceResponse :: string where
  \<comment> \<open>\<open>{"transactions":[{"date":"2025-07-14","description":"Corner Store",
      "amount":-5,"confidence":0}]}\<close>\<close>
  "zeroConfidenceResponse =
     ''{'' @ quote ''transactions'' @ '':[{''
       @ quote ''date'' @ '':'' @ quote ''2025-07-14'' @ '',''
       @ quote ''description'' @ '':'' @ quote ''Corner Store'' @ '',''
       @ quote ''amount'' @ '':-5,''
       @ quote ''confidence'' @ '':0}]}''"

definition nullEntryResponse :: string where
  \<comment> \<open>\<open>{"transactions":[null,{"date":"2025-07-14","description":"Bell Canada",
      "amount":-119.91}]}\<close>\<close>
  "nullEntryResponse =
     ''{'' @ quote ''transactions'' @ '':[null,{''
       @ quote ''date'' @ '':'' @ quote ''2025-07-14'' @ '',''
       @ quote ''description'' @ '':'' @ quote ''Bell Canada'' @ '',''
       @ quote ''amount'' @ '':-119.91}]}''"

definition numericDescriptionResponse :: string where
  \<comment> \<open>\<open>{"transactions":[{"date":"2025-07-14","description":42,"amount":-5},
      {"date":"2025-07-14","description":"Bell Canada","amount":-119.91}]}\<close>\<close>
  "numericDescriptionResponse =
     ''{'' @ quote ''transactions'' @ '':[{''
       @ quote ''date'' @ '':'' @ quote ''2025-07-14'' @ '',''
       @ quote ''description'' @ '':42,''
       @ quote ''amount'' @ '':-5},{''
       @ quote ''date'' @ '':'' @ quote ''2025-07-14'' @ '',''
       @ quote ''description'' @ '':'' @ quote ''Bell Canada'' @ '',''
       @ quote ''amount'' @ '':-119.91}]}''"

section \<open>Entries that the validator keeps\<close>

definition hasNumber :: "json option \<Rightarrow> bool" where
  \<comment> \<open>\<open>typeof v === 'number'\<close>\<close>
  "hasNumber v = (case v of Some (JNum a) \<Rightarrow> True | _ \<Rightarrow> False)"

definition keptEntry :: "json \<Rightarrow> bool" where
  \<comment> \<open>the entry has a date and a description, its amount is a number, and its date
      passes the format check\<close>
  "keptEntry e =
     (truthy (getProp e ''date'') \<and> truthy (getProp e ''description'')
      \<and> hasNumber (getProp e ''amount'')
      \<and> (case getProp e ''date'' of Some dateV \<Rightarrow> dateRegexTest dateV | None \<Rightarrow> False))"

definition descriptionString :: "json \<Rightarrow> string option" where
  \<comment> \<open>the description of an entry when it is a string\<close>
  "descriptionString e = (case getProp e ''description'' of Some (JStr d) \<Rightarrow> Some d | _ \<Rightarrow> None)"

section \<open>Properties of the keyword classifier\<close>

lemma includes_Nil: "includes_str s []"
  by (induction s) simp_all

lemma fst_keywordStep:
  "fst (foldl (keywordStep nd) acc ks) =
     fst acc + 7/10 * of_nat (length (filter (\<lambda>k. includes_str nd (toLowerCase k)) ks))"
  by (induction ks arbitrary: acc) (simp_all add: keywordStep_def algebra_simps)

lemma fst_partialStep:
  "fst (foldl (partialStep w) acc ks) =
     fst acc + 3/10 * of_nat (length (filter
        (\<lambda>k. includes_str (toLowerCase k) w \<or> includes_str w (toLowerCase k)) ks))"
  by (induction ks arbitrary: acc) (simp_all add: partialStep_def algebra_simps)

lemma fst_partialWords:
  "fst (foldl (\<lambda>acc word. foldl (partialStep word) acc (td_keywords t)) acc ws) =
     fst acc + 3/10 * of_nat (sum_list (map (\<lambda>w. partialHits w t) ws))"
  by (induction ws arbitrary: acc) (simp_all add: fst_partialStep partialHits_def algebra_simps)

lemma fst_entryScore: "fst (entryScore nd ws t) = entryPoints nd ws t"
  by (simp add: entryScore_def entryPoints_def fst_partialWords fst_keywordStep
      exactMatch_def keywordHits_def)

lemma entryPoints_nonneg: "0 \<le> entryPoints nd ws t"
  by (simp add: entryPoints_def)

lemma fst_trainingStep:
  "fst (trainingStep nd ws maps t) = scoreStep (entryPoints nd ws t) (td_category t) (fst maps)"
  by (simp add: trainingStep_def scoreStep_def Let_def fst_entryScore)

lemma fst_foldl_trainingStep:
  "fst (foldl (trainingStep nd ws) maps td) =
     foldl (\<lambda>m t. scoreStep (entryPoints nd ws t) (td_category t) m) (fst maps) td"
  by (induction td arbitrary: maps) (simp_all add: fst_trainingStep)

lemma findBest_pair:
  "(fst (foldl (bestStep R) b xs), fst (snd (foldl (bestStep R) b xs))) =
     foldl bestPair (fst b, fst (snd b)) xs"
proof (induction xs arbitrary: b)
  case Nil
  show ?case by simp
next
  case (Cons x xs)
  have "(fst (bestStep R b x), fst (snd (bestStep R b x))) = bestPair (fst b, fst (snd b)) x"
    by (cases x) (simp add: bestStep_def bestPair_def)
  then show ?case using Cons.IH[of "bestStep R b x"] by simp
qed

lemma Max_insert_max:
  "finite S \<Longrightarrow> Max (insert (max a b) S) = Max (insert a (insert b S))"
  by (cases "S = {}") (simp_all add: max.assoc max.commute max.left_commute)

lemma foldl_bestStep_score:
  "fst (snd (foldl (bestStep R) b xs)) = Max (insert (fst (snd b)) (snd ` set xs))"
proof (induction xs arbitrary: b)
  case Nil
  then show ?case by simp
next
  case (Cons x xs)
  have step: "fst (snd (bestStep R b x)) = max (fst (snd b)) (snd x)"
    by (simp add: bestStep_def max_def)
  have "fst (snd (foldl (bestStep R) b (x # xs))) =
        Max (insert (max (fst (snd b)) (snd x)) (snd ` set xs))"
    using Cons.IH[of "bestStep R b x"] by (simp only: foldl_Cons step)
  also have "\<dots> = Max (insert (fst (snd b)) (insert (snd x) (snd ` set xs)))"
    by (rule Max_insert_max) simp
  finally show ?case by simp
qed

lemma bestScore_winningScore:
  "fst (snd (findBest (categoryMaps td d))) = winningScore td d"
  by (simp add: findBest_def winningScore_def foldl_bestStep_score)

lemma finalConfidence_range: "4/10 \<le> finalConfidence s \<and> finalConfidence s \<le> 1"
  unfolding finalConfidence_def Let_def min_def max_def by auto

text \<open>
  C8. The confidence that \<open>classifyTransaction\<close> returns is the floored normalisation of
  the winning score (the largest accumulated category score, 0 when none is positive):
  with \<open>raw = min (winningScore / 2) 1\<close> it is \<open>max raw 0.7\<close> when \<open>raw > 0.5\<close> and
  \<open>max raw 0.4\<close> otherwise, and so it lies between 0.4 and 1. This holds for every
  training table and every description.
\<close>

theorem classifier_confidence_floor:
  "cr_confidence (classifyTransaction td d) =
     (if min (winningScore td d / 2) 1 > 1/2
      then max (min (winningScore td d / 2) 1) (7/10)
      else max (min (winningScore td d / 2) 1) (4/10))
   \<and> 4/10 \<le> cr_confidence (classifyTransaction td d)
   \<and> cr_confidence (classifyTransaction td d) \<le> 1"
proof -
  have conf: "cr_confidence (classifyTransaction td d) = finalConfidence (winningScore td d)"
    by (simp add: classifyTransaction_def Let_def bestScore_winningScore)
  show ?thesis
    unfolding conf using finalConfidence_range[of "winningScore td d"]
    by (simp add: finalConfidence_def Let_def)
qed

lemma lowerChar_ws: "isWhiteSpace c \<Longrightarrow> lowerChar c = c"
  unfolding isWhiteSpace_def lowerChar_def by auto

lemma trim_toLowerCase_ws:
  assumes "\<forall>c\<in>set d. isWhiteSpace c"
  shows "trim (toLowerCase d) = []"
proof -
  have low: "toLowerCase d = d"
    unfolding toLowerCase_def using assms by (simp add: map_idI lowerChar_ws)
  have drop: "dropWhile isWhiteSpace d = []"
    using assms by simp
  show ?thesis
    unfolding trim_def trimStart_def trimEnd_def low drop by simp
qed

lemma entryPoints_empty:
  "entryPoints [] [[]] t =
     (if td_description t = [] then 9/10 else 0)
     + 7/10 * of_nat (length (filter (\<lambda>k. k = []) (td_keywords t)))
     + 3/10 * of_nat (length (td_keywords t))"
  by (simp add: entryPoints_def keywordHits_def partialHits_def includes_Nil toLowerCase_def)

lemma training_entries_nonempty:
  "\<forall>t\<in>set TRAINING_DATA. td_description t \<noteq> [] \<and> filter (\<lambda>k. k = []) (td_keywords t) = []"
  by (simp add: TRAINING_DATA_def mkTraining_def)

lemma scores_empty:
  "fst (categoryMaps TRAINING_DATA []) =
    [(''Living Expenses'', 81 / 10), (''Groceries'', 21 / 5), (''Restaurants'', 6),
     (''Car'', 33 / 5), (''Entertainment'', 6), (''Miscellaneous'', 21 / 5)]"
  unfolding categoryMaps_def Let_def fst_foldl_trainingStep
  apply (simp add: trim_def trimStart_def trimEnd_def toLowerCase_def split_whitespace_def
      entryPoints_empty)
  apply (simp add: TRAINING_DATA_def mkTraining_def scoreStep_def getScore_def)
  done

lemma best_empty:
  "fst (findBest (categoryMaps TRAINING_DATA [])) = ''Living Expenses'' \<and>
   fst (snd (findBest (categoryMaps TRAINING_DATA []))) = 81 / 10"
  using findBest_pair[of "snd (categoryMaps TRAINING_DATA [])" "(''Miscellaneous'', 0, [])"
      "fst (categoryMaps TRAINING_DATA [])"]
  unfolding findBest_def scores_empty by (simp add: bestPair_def)

lemma keywordCount_table:
  "keywordCount TRAINING_DATA ''Living Expenses'' = 27 \<and>
   (c \<noteq> ''Living Expenses'' \<longrightarrow> keywordCount TRAINING_DATA c \<le> 22)"
  by (auto simp add: keywordCount_def TRAINING_DATA_def mkTraining_def)

text \<open>
  C10. For a description of white space only (the empty description included) the
  normalised description is empty and its split gives the single empty word. The empty
  word is contained in every keyword, so every entry of the training table scores 0.3
  for each of its keywords and nothing else. The classifier then returns "Living
  Expenses", the category with the most keywords in the table (27; every other category
  has fewer), with the confidence 1, and not "Miscellaneous" with a low confidence.
\<close>

theorem whitespace_description_classified:
  assumes "\<forall>c\<in>set d. isWhiteSpace c"
  shows "split_whitespace (trim (toLowerCase d)) = [[]]
    \<and> (\<forall>t\<in>set TRAINING_DATA.
          fst (entryScore (trim (toLowerCase d))
                 (split_whitespace (trim (toLowerCase d))) t) =
          3/10 * of_nat (length (td_keywords t)))
    \<and> cr_category (classifyTransaction TRAINING_DATA d) = ''Living Expenses''
    \<and> cr_confidence (classifyTransaction TRAINING_DATA d) = 1
    \<and> (\<forall>c. c \<noteq> ''Living Expenses'' \<longrightarrow>
          keywordCount TRAINING_DATA c < keywordCount TRAINING_DATA ''Living Expenses'')"
proof -
  have nd: "trim (toLowerCase d) = []"
    using assms by (rule trim_toLowerCase_ws)
  have nd0: "trim (toLowerCase []) = []"
    by (rule trim_toLowerCase_ws) simp
  have words: "split_whitespace [] = [[]]"
    by (simp add: split_whitespace_def)
  have maps: "categoryMaps TRAINING_DATA d = categoryMaps TRAINING_DATA []"
    by (simp add: categoryMaps_def nd nd0)
  have entries: "\<forall>t\<in>set TRAINING_DATA. fst (entryScore [] [[]] t) = 3/10 * of_nat (length (td_keywords t))"
    using training_entries_nonempty by (simp add: fst_entryScore entryPoints_empty)
  have cat: "cr_category (classifyTransaction TRAINING_DATA d) = ''Living Expenses''"
    using best_empty by (simp add: classifyTransaction_def Let_def maps)
  have conf: "cr_confidence (classifyTransaction TRAINING_DATA d) = 1"
    using best_empty by (simp add: classifyTransaction_def Let_def maps finalConfidence_def)
  have counts: "\<forall>c. c \<noteq> ''Living Expenses'' \<longrightarrow>
          keywordCount TRAINING_DATA c < keywordCount TRAINING_DATA ''Living Expenses''"
    using keywordCount_table by fastforce
  show ?thesis
    unfolding nd words using entries cat conf counts by simp
qed

theorem whitespace_description_classified_witness:
  "cr_category (classifyTransaction TRAINING_DATA [CHR 0x20, CHR 0x09]) = ''Living Expenses''
   \<and> cr_confidence (classifyTransaction TRAINING_DATA [CHR 0x20, CHR 0x09]) = 1"
  using whitespace_description_classified[of "[CHR 0x20, CHR 0x09]"]
  by (simp add: isWhiteSpace_def)

theorem classifier_confidence_floor_witness:
  "winningScore TRAINING_DATA [] = 81/10 \<and> cr_confidence (classifyTransaction TRAINING_DATA []) = 1"
  using classifier_confidence_floor[of TRAINING_DATA "[]"]
  by (simp add: winningScore_def scores_empty)

section \<open>Properties of the line parser\<close>

lemma startsWith_iff: "startsWith s p \<longleftrightarrow> (\<exists>q. s = p @ q)"
  by (induction p arbitrary: s) (auto split: list.splits)

lemma includes_str_iff: "includes_str s sub \<longleftrightarrow> (\<exists>p q. s = p @ sub @ q)"
proof (induction s)
  case Nil
  show ?case by auto
next
  case (Cons c cs)
  show ?case
  proof
    assume "includes_str (c # cs) sub"
    then consider "startsWith (c # cs) sub" | "includes_str cs sub" by auto
    then show "\<exists>p q. c # cs = p @ sub @ q"
    proof cases
      case 1
      then obtain q where "c # cs = sub @ q" by (auto simp: startsWith_iff)
      then have "c # cs = [] @ sub @ q" by simp
      then show ?thesis by blast
    next
      case 2
      then obtain p q where "cs = p @ sub @ q" using Cons.IH by blast
      then have "c # cs = (c # p) @ sub @ q" by simp
      then show ?thesis by blast
    qed
  next
    assume "\<exists>p q. c # cs = p @ sub @ q"
    then obtain p q where pq: "c # cs = p @ sub @ q" by blast
    show "includes_str (c # cs) sub"
    proof (cases p)
      case Nil
      then have "startsWith (c # cs) sub" using pq by (auto simp: startsWith_iff)
      then show ?thesis by simp
    next
      case (Cons a p')
      then have "cs = p' @ sub @ q" using pq by simp
      then have "includes_str cs sub" using Cons.IH by blast
      then show ?thesis by simp
    qed
  qed
qed

lemma matchClasses3:
  "matchClasses [P1, P2, P3] s = Some x \<Longrightarrow>
     \<exists>a b c. x = [a, b, c] \<and> P1 a \<and> P2 b \<and> P3 c"
  by (auto split: list.splits if_splits)

lemma matchAmount_shape:
  assumes "matchAmount s = Some m"
  shows "\<exists>run d1 d2. m = run @ [CHR ''.'', d1, d2] \<and> run \<noteq> [] \<and>
           (\<forall>c\<in>set run. isAmountChar c) \<and> isDigit d1 \<and> isDigit d2"
proof -
  let ?run = "takeWhile isAmountChar s"
  from assms have ne: "?run \<noteq> []"
    by (auto simp: matchAmount_def Let_def split: if_splits)
  from assms obtain x where
    x: "matchClasses [(=) (CHR ''.''), isDigit, isDigit] (dropWhile isAmountChar s) = Some x"
    and m: "m = ?run @ x"
    by (auto simp: matchAmount_def Let_def split: if_splits)
  from matchClasses3[OF x] obtain a b c where
    "x = [a, b, c]" "CHR ''.'' = a" "isDigit b" "isDigit c" by blast
  moreover have "\<forall>c\<in>set ?run. isAmountChar c"
    by (auto dest: set_takeWhileD)
  ultimately show ?thesis using ne m by blast
qed

lemma amountScan_matches:
  "m \<in> set (amountScan k s) \<Longrightarrow> \<exists>s'. matchAmount s' = Some m"
  by (induction k s rule: amountScan.induct) (auto split: option.splits)

lemma isDigit_not_comma: "isDigit c \<Longrightarrow> c \<noteq> CHR '',''"
  by (auto simp: isDigit_def)

lemma point_not_digit: "\<not> isDigit (CHR ''.'')"
  by (simp add: isDigit_def)

lemma parseFloat_amount_token:
  assumes "matchAmount s = Some m"
  shows "\<exists>v. parseFloat (filter (\<lambda>c. c \<noteq> CHR '','') m) = Some v \<and> 0 \<le> v"
proof -
  from matchAmount_shape[OF assms] obtain run d1 d2 where
    m: "m = run @ [CHR ''.'', d1, d2]" and run: "\<forall>c\<in>set run. isAmountChar c"
    and d: "isDigit d1" "isDigit d2" by blast
  let ?r = "filter (\<lambda>c. c \<noteq> CHR '','') run"
  have f: "filter (\<lambda>c. c \<noteq> CHR '','') m = ?r @ [CHR ''.'', d1, d2]"
    using d by (simp add: m isDigit_not_comma)
  have rd: "\<forall>c\<in>set ?r. isDigit c"
    using run by (auto simp: isAmountChar_def)
  have tw: "takeWhile isDigit (?r @ [CHR ''.'', d1, d2]) = ?r"
    using rd takeWhile_append2[of ?r isDigit "[CHR ''.'', d1, d2]"]
    by (simp add: point_not_digit)
  have dw: "dropWhile isDigit (?r @ [CHR ''.'', d1, d2]) = [CHR ''.'', d1, d2]"
    using rd dropWhile_append2[of ?r isDigit "[CHR ''.'', d1, d2]"]
    by (simp add: point_not_digit)
  have "parseFloat (?r @ [CHR ''.'', d1, d2]) =
          Some (of_nat (decimalValue ?r) + of_nat (decimalValue [d1, d2]) / 10 ^ 2)"
    unfolding parseFloat_def Let_def tw dw using d by simp
  then show ?thesis unfolding f by simp
qed

lemma debitIndicator_iff:
  "debitIndicator s \<longleftrightarrow>
     (\<exists>k\<in>set [''Withdrawal'', ''Debit'', ''Purchase'', ''Payment'']. \<exists>p q. s = p @ k @ q)"
  unfolding debitIndicator_def includes_str_iff by auto

text \<open>
  C3, amended. When the line, with a leading date token removed and trimmed, has an
  amount token, the last token is parsed to a magnitude \<open>v \<ge> 0\<close>; the amount is \<open>- v\<close>
  exactly when that text contains one of the strings "Withdrawal", "Debit", "Purchase",
  "Payment" in this very casing, and \<open>v\<close> otherwise. The match is case-sensitive.
\<close>

theorem sign_policy_case_sensitive:
  assumes "amountMatches (cleanLine line) \<noteq> []"
  shows "\<exists>v. parseFloat (filter (\<lambda>c. c \<noteq> CHR '','') (last (amountMatches (cleanLine line)))) = Some v
           \<and> 0 \<le> v
           \<and> snd (extractDescriptionAndAmount line) =
               (if (\<exists>k\<in>set [''Withdrawal'', ''Debit'', ''Purchase'', ''Payment''].
                      \<exists>p q. cleanLine line = p @ k @ q)
                then - v else v)"
proof -
  let ?ms = "amountMatches (cleanLine line)"
  have "last ?ms \<in> set ?ms" using assms by simp
  then obtain s' where "matchAmount s' = Some (last ?ms)"
    unfolding amountMatches_def using amountScan_matches by blast
  from parseFloat_amount_token[OF this] obtain v where
    v: "parseFloat (filter (\<lambda>c. c \<noteq> CHR '','') (last ?ms)) = Some v" "0 \<le> v" by blast
  have "snd (extractDescriptionAndAmount line) = (if debitIndicator (cleanLine line) then - v else v)"
    using assms v by (simp add: extractDescriptionAndAmount_def Let_def)
  then show ?thesis using v unfolding debitIndicator_iff by blast
qed


text \<open>
  C3 (as stated) fails: the line below contains "DEBIT" and "PURCHASE", which are the
  indicators "Debit" and "Purchase" in another letter casing, an amount token is
  extracted from it, and the amount stays positive.
\<close>

theorem sign_policy_uppercase_counterexample:
  "includes_str (toLowerCase ''14 Jul DEBIT CARD PURCHASE 5.00'') (toLowerCase ''Debit'')
   \<and> includes_str (toLowerCase ''14 Jul DEBIT CARD PURCHASE 5.00'') (toLowerCase ''Purchase'')
   \<and> amountMatches (cleanLine ''14 Jul DEBIT CARD PURCHASE 5.00'') = [''5.00'']
   \<and> snd (extractDescriptionAndAmount ''14 Jul DEBIT CARD PURCHASE 5.00'') = 5"
  by code_simp

theorem sign_policy_case_sensitive_witness:
  "amountMatches (cleanLine ''14 Jul Debit card 5.00'') \<noteq> []
   \<and> cleanLine ''14 Jul Debit card 5.00'' = [] @ ''Debit'' @ '' card 5.00''
   \<and> snd (extractDescriptionAndAmount ''14 Jul Debit card 5.00'') = - 5"
proof -
  have h: "amountMatches (cleanLine ''14 Jul Debit card 5.00'') \<noteq> []"
    by code_simp
  have c: "cleanLine ''14 Jul Debit card 5.00'' = [] @ ''Debit'' @ '' card 5.00''"
    by code_simp
  have v: "parseFloat (filter (\<lambda>c. c \<noteq> CHR '','')
             (last (amountMatches (cleanLine ''14 Jul Debit card 5.00'')))) = Some 5"
    by code_simp
  have k: "\<exists>k\<in>set [''Withdrawal'', ''Debit'', ''Purchase'', ''Payment''].
             \<exists>p q. cleanLine ''14 Jul Debit card 5.00'' = p @ k @ q"
    by (rule bexI[of _ "''Debit''"], rule exI[of _ "[]"], rule exI[of _ "'' card 5.00''"])
      (simp_all add: c)
  from sign_policy_case_sensitive[OF h] v k
  have "snd (extractDescriptionAndAmount ''14 Jul Debit card 5.00'') = - 5"
    by auto
  with h c show ?thesis by blast
qed

lemma toyota_line_parse:
  "parseTransactionText 2025 ''Jul 14 PREAUTHORIZED DEBIT TOYOTA FINANCE 254.18'' =
     [\<lparr>date = ''2025-01-14'', description = ''Jul 14 PREAUTHORIZED DEBIT TOYOTA FINANCE'',
       amount = 25418 / 100\<rparr>]"
  by code_simp

text \<open>
  C2 (as stated) fails: for the line of the scenario the parser finds the date token
  "14 PRE", and the amount is not negated, since the line has "DEBIT" but none of the
  indicators in their own casing.
\<close>

theorem toyota_line_counterexample:
  "map date (parseTransactionText 2025 ''Jul 14 PREAUTHORIZED DEBIT TOYOTA FINANCE 254.18'')
     = [''2025-01-14'']
   \<and> map amount (parseTransactionText 2025 ''Jul 14 PREAUTHORIZED DEBIT TOYOTA FINANCE 254.18'')
     = [25418 / 100]
   \<and> \<not> (map date (parseTransactionText 2025 ''Jul 14 PREAUTHORIZED DEBIT TOYOTA FINANCE 254.18'')
          = [''2025-07-14'']
        \<and> map amount (parseTransactionText 2025 ''Jul 14 PREAUTHORIZED DEBIT TOYOTA FINANCE 254.18'')
          = [- (25418 / 100)])"
  unfolding toyota_line_parse by simp

text \<open>
  C2, amended. For the line "Jul 14 PREAUTHORIZED DEBIT TOYOTA FINANCE 254.18" and the
  year 2025 the parser returns exactly one record; its description is the line without
  the amount token, which contains "TOYOTA FINANCE"; its amount is +254.18.
\<close>

theorem toyota_line_record:
  "length (parseTransactionText 2025 ''Jul 14 PREAUTHORIZED DEBIT TOYOTA FINANCE 254.18'') = 1
   \<and> map description (parseTransactionText 2025 ''Jul 14 PREAUTHORIZED DEBIT TOYOTA FINANCE 254.18'')
     = [''Jul 14 PREAUTHORIZED DEBIT TOYOTA FINANCE'']
   \<and> includes_str ''Jul 14 PREAUTHORIZED DEBIT TOYOTA FINANCE'' ''TOYOTA FINANCE''
   \<and> map amount (parseTransactionText 2025 ''Jul 14 PREAUTHORIZED DEBIT TOYOTA FINANCE 254.18'')
     = [25418 / 100]"
proof -
  have "includes_str ''Jul 14 PREAUTHORIZED DEBIT TOYOTA FINANCE'' ''TOYOTA FINANCE''"
    by code_simp
  then show ?thesis unfolding toyota_line_parse by simp
qed

theorem toyota_line_record_witness:
  "map amount (parseTransactionText 2025 ''Jul 14 PREAUTHORIZED DEBIT TOYOTA FINANCE 254.18'')
     = [25418 / 100]"
  using toyota_line_record by blast

section \<open>Properties of the description normalizer\<close>

lemma dropWhile_keeps: "c \<in> set s \<Longrightarrow> \<not> P c \<Longrightarrow> c \<in> set (dropWhile P s)"
  by (induction s) auto

lemma trim_keeps: "c \<in> set s \<Longrightarrow> \<not> isWhiteSpace c \<Longrightarrow> c \<in> set (trim s)"
  unfolding trim_def trimStart_def trimEnd_def
  by (simp add: dropWhile_keeps)

lemma trim_empty_iff: "trim s = [] \<longleftrightarrow> (\<forall>c\<in>set s. isWhiteSpace c)"
proof
  assume "trim s = []"
  then show "\<forall>c\<in>set s. isWhiteSpace c"
    using trim_keeps[of _ s] by fastforce
next
  assume "\<forall>c\<in>set s. isWhiteSpace c"
  then have drop: "dropWhile isWhiteSpace s = []" by simp
  show "trim s = []"
    unfolding trim_def trimStart_def trimEnd_def drop by simp
qed

lemma collapseWs_keeps:
  "c \<in> set s \<Longrightarrow> \<not> isWhiteSpace c \<Longrightarrow> c \<in> set (collapseWs b s)"
  by (induction s arbitrary: b) auto

lemma stripReference_keeps:
  assumes "c \<in> set s" and "\<not> isDigit c"
  shows "c \<in> set (stripReference s)"
proof (cases "4 \<le> length s \<and> list_all isDigit (drop (length s - 4) s)")
  case True
  have "set s = set (take (length s - 4) s) \<union> set (drop (length s - 4) s)"
    by (metis append_take_drop_id set_append)
  moreover have "c \<notin> set (drop (length s - 4) s)"
    using True assms(2) by (auto simp: list_all_iff)
  ultimately have "c \<in> set (take (length s - 4) s)" using assms(1) by blast
  then show ?thesis using True by (simp add: stripReference_def Let_def)
next
  case False
  then show ?thesis using assms(1) by (auto simp: stripReference_def Let_def)
qed

text \<open>
  C5 (as stated) fails: \<open>cleanDescription\<close> has no fallback to the trimmed input. A
  description that is a boilerplate prefix, or four digits, is cleaned to the empty
  string, while the trimmed input is not empty.
\<close>

theorem clean_description_empty_counterexample:
  "cleanDescription ''Transfer sent'' = [] \<and> trim ''Transfer sent'' = ''Transfer sent''
   \<and> cleanDescription ''1234'' = [] \<and> trim ''1234'' = ''1234''"
  by code_simp

text \<open>
  C5, amended. The result of \<open>cleanDescription\<close> is empty exactly when the text that is
  left after collapsing the white space, removing a leading boilerplate prefix and
  removing four trailing digits has only white space; there is no fallback. The result
  is not empty when the description has a character that is neither white space nor a
  digit and, with its white space collapsed, does not start with one of the prefixes.
\<close>

theorem clean_description_nonempty:
  "(cleanDescription d = [] \<longleftrightarrow>
      (\<forall>c\<in>set (stripReference (stripPrefix (collapseWs False d))). isWhiteSpace c))
   \<and> (filter (startsWithIgnoreCase (collapseWs False d)) descriptionPrefixes = []
        \<and> (\<exists>c\<in>set d. \<not> isWhiteSpace c \<and> \<not> isDigit c)
      \<longrightarrow> cleanDescription d \<noteq> [])"
proof (intro conjI impI)
  show "cleanDescription d = [] \<longleftrightarrow>
      (\<forall>c\<in>set (stripReference (stripPrefix (collapseWs False d))). isWhiteSpace c)"
    by (simp add: cleanDescription_def trim_empty_iff)
next
  assume a: "filter (startsWithIgnoreCase (collapseWs False d)) descriptionPrefixes = []
        \<and> (\<exists>c\<in>set d. \<not> isWhiteSpace c \<and> \<not> isDigit c)"
  then obtain c where c: "c \<in> set d" "\<not> isWhiteSpace c" "\<not> isDigit c" by blast
  have "stripPrefix (collapseWs False d) = collapseWs False d"
    using a by (simp add: stripPrefix_def)
  moreover have "c \<in> set (collapseWs False d)"
    using c by (simp add: collapseWs_keeps)
  ultimately have "c \<in> set (stripReference (stripPrefix (collapseWs False d)))"
    using c by (simp add: stripReference_keeps)
  then have "c \<in> set (cleanDescription d)"
    using c unfolding cleanDescription_def by (rule_tac trim_keeps)
  then show "cleanDescription d \<noteq> []" by auto
qed

theorem clean_description_nonempty_witness:
  "filter (startsWithIgnoreCase (collapseWs False ''STARBUCKS  COFFEE 1234'')) descriptionPrefixes = []
   \<and> (\<exists>c\<in>set ''STARBUCKS  COFFEE 1234''. \<not> isWhiteSpace c \<and> \<not> isDigit c)
   \<and> cleanDescription ''STARBUCKS  COFFEE 1234'' = ''STARBUCKS COFFEE''
   \<and> cleanDescription ''STARBUCKS  COFFEE 1234'' \<noteq> []"
proof -
  have h: "filter (startsWithIgnoreCase (collapseWs False ''STARBUCKS  COFFEE 1234'')) descriptionPrefixes = []
   \<and> (\<exists>c\<in>set ''STARBUCKS  COFFEE 1234''. \<not> isWhiteSpace c \<and> \<not> isDigit c)"
    by code_simp
  have e: "cleanDescription ''STARBUCKS  COFFEE 1234'' = ''STARBUCKS COFFEE''"
    by code_simp
  from clean_description_nonempty[of "''STARBUCKS  COFFEE 1234''"] h
  have "cleanDescription ''STARBUCKS  COFFEE 1234'' \<noteq> []" by blast
  with h e show ?thesis by blast
qed

section \<open>Properties of the JSON parser\<close>

text \<open>
  Every function of the parser returns a rest that is shorter than its input, and the
  bound on the nested calls that \<open>JSON_parse\<close> starts with is never reached: with any
  larger bound the parser returns the same result (\<open>JSON_parse_fuel\<close>). A result \<open>None\<close>
  of \<open>JSON_parse\<close> is therefore a syntax error of the text.
\<close>

lemma parseStringBody_shorter:
  "parseStringBody acc s = Some r \<Longrightarrow> length (snd r) < length s"
proof (induction acc s rule: parseStringBody.induct)
  case (1 acc)
  then show ?case by simp
next
  case (2 acc c cs)
  show ?case
  proof (cases "c = dq")
    case True
    then show ?thesis using "2.prems" by auto
  next
    case nq: False
    show ?thesis
    proof (cases "c = CHR 0x5C")
      case True
      then obtain e rest where cs: "cs = e # rest"
        using "2.prems" nq by (cases cs) auto
      show ?thesis
      proof (cases "e = CHR ''u''")
        case u: True
        then obtain h1 h2 h3 h4 rest' n where
          rest: "rest = h1 # h2 # h3 # h4 # rest'" and h: "hex4 h1 h2 h3 h4 = Some n"
          and lt: "n < 256" and rec: "parseStringBody (char_of n # acc) rest' = Some r"
          using "2.prems" nq True cs
          by (auto split: list.splits option.splits if_splits)
        have "length (snd r) < length rest'"
          using "2.IH"(1)[of e rest h1 "h2 # h3 # h4 # rest'" h2 "h3 # h4 # rest'" h3
              "h4 # rest'" h4 rest' n] nq True cs u rest h lt rec
          by simp
        then show ?thesis using cs rest by simp
      next
        case nu: False
        then obtain x where x: "escapeChar e = Some x"
          and rec: "parseStringBody (x # acc) rest = Some r"
          using "2.prems" nq True cs by (auto split: option.splits)
        have "length (snd r) < length rest"
          using "2.IH"(2)[OF nq True cs nu x rec] .
        then show ?thesis using cs by simp
      qed
    next
      case nb: False
      then have ctl: "\<not> (of_char c :: nat) < 32" and rec: "parseStringBody (c # acc) cs = Some r"
        using "2.prems" nq by (auto split: if_splits)
      have "length (snd r) < length cs"
        using "2.IH"(3)[OF nq nb ctl rec] .
      then show ?thesis by simp
    qed
  qed
qed


lemma skipWs_length: "length (skipWs s) \<le> length s"
  by (simp add: skipWs_def length_dropWhile_le)

lemma skipWs_Cons_length: "skipWs s = c # cs \<Longrightarrow> length cs < length s"
  using skipWs_length[of s] by simp

lemma dropWhile_shorter: "takeWhile P xs \<noteq> [] \<Longrightarrow> length (dropWhile P xs) < length xs"
proof -
  assume "takeWhile P xs \<noteq> []"
  then have "0 < length (takeWhile P xs)" by simp
  moreover have "length (takeWhile P xs) + length (dropWhile P xs) = length xs"
    by (metis length_append takeWhile_dropWhile_id)
  ultimately show ?thesis by linarith
qed

lemma parseExponent_length: "parseExponent s = Some r \<Longrightarrow> length (snd r) \<le> length s"
proof (cases s)
  case Nil
  assume "parseExponent s = Some r"
  then show ?thesis using Nil by (auto simp: parseExponent_def)
next
  case (Cons c cs)
  assume a: "parseExponent s = Some r"
  show ?thesis
  proof (cases "c = CHR ''e'' \<or> c = CHR ''E''")
    case False
    then show ?thesis using a Cons by (auto simp: parseExponent_def)
  next
    case True
    define ds where "ds = (case cs of d # ds' \<Rightarrow> if d = CHR ''-'' \<or> d = CHR ''+'' then ds' else cs
                       | [] \<Rightarrow> [])"
    have "snd r = dropWhile isDigit ds"
      using a Cons True unfolding parseExponent_def Let_def ds_def
      by (auto split: if_splits)
    moreover have "length ds \<le> length cs"
      unfolding ds_def by (auto split: list.splits)
    moreover have "length (dropWhile isDigit ds) \<le> length ds"
      by (rule length_dropWhile_le)
    ultimately show ?thesis using Cons by simp
  qed
qed

lemma parseNumber_shorter:
  assumes "parseNumber s = Some r"
  shows "length (snd r) < length s"
proof -
  define neg where "neg = (case s of c # _ \<Rightarrow> c = CHR ''-'' | [] \<Rightarrow> False)"
  define s1 where "s1 = (if neg then tl s else s)"
  define s2 where "s2 = dropWhile isDigit s1"
  define hasFrac where "hasFrac = (case s2 of c # _ \<Rightarrow> c = CHR ''.'' | [] \<Rightarrow> False)"
  define s3 where "s3 = (if hasFrac then dropWhile isDigit (tl s2) else s2)"
  from assms have ip: "takeWhile isDigit s1 \<noteq> []"
    unfolding parseNumber_def Let_def neg_def s1_def by (auto split: if_splits)
  from assms obtain e s4 where ex: "parseExponent s3 = Some (e, s4)" and r: "snd r = s4"
    unfolding parseNumber_def Let_def neg_def s1_def s2_def hasFrac_def s3_def
    by (auto split: if_splits option.splits)
  have "length s4 \<le> length s3" using parseExponent_length[OF ex] by simp
  moreover have "length s3 \<le> length s2"
    unfolding s3_def using length_dropWhile_le[of isDigit "tl s2"] by auto
  moreover have "length s2 < length s1"
    unfolding s2_def using ip by (rule dropWhile_shorter)
  moreover have "length s1 \<le> length s"
    unfolding s1_def by auto
  ultimately show ?thesis using r by simp
qed


lemma drop_shorter: "0 < k \<Longrightarrow> length (drop k (c # cs)) < length (c # cs)"
  by simp

lemma parse_shorter:
  shows "parseValue n s = Some r \<Longrightarrow> length (snd r) < length s"
    and "parseElements n acc s = Some r \<Longrightarrow> length (snd r) < length s"
    and "parseMembers n macc s = Some r \<Longrightarrow> length (snd r) < length s"
proof (induction n s and n acc s and n macc s arbitrary: r and r and r
    rule: parseValue_parseElements_parseMembers.induct)
  case (1 s)
  then show ?case by simp
next
  case (2 n s)
  from "2.prems" obtain c cs where sk: "skipWs s = c # cs"
    by (auto split: list.splits)
  have lcs: "length (c # cs) \<le> length s"
    using skipWs_length[of s] sk by simp
  show ?case
  proof (cases "c = CHR ''{''")
    case True
    from "2.prems" sk True obtain d ds where sk2: "skipWs cs = d # ds"
      by (auto split: list.splits)
    have lds: "length (d # ds) \<le> length cs"
      using skipWs_length[of cs] sk2 by simp
    show ?thesis
    proof (cases "d = CHR ''}''")
      case True
      then have "snd r = ds" using "2.prems" sk \<open>c = CHR ''{''\<close> sk2 by auto
      then show ?thesis using lds lcs by simp
    next
      case False
      then have "parseMembers n [] (d # ds) = Some r"
        using "2.prems" sk \<open>c = CHR ''{''\<close> sk2 by auto
      from "2.IH"(1)[OF sk \<open>c = CHR ''{''\<close> sk2 False this]
      show ?thesis using lds lcs by simp
    qed
  next
    case nobj: False
    show ?thesis
    proof (cases "c = CHR ''[''")
      case True
      from "2.prems" sk nobj True obtain d ds where sk2: "skipWs cs = d # ds"
        by (auto split: list.splits)
      have lds: "length (d # ds) \<le> length cs"
        using skipWs_length[of cs] sk2 by simp
      show ?thesis
      proof (cases "d = CHR '']''")
        case True
        then have "snd r = ds" using "2.prems" sk nobj \<open>c = CHR ''[''\<close> sk2 by auto
        then show ?thesis using lds lcs by simp
      next
        case False
        then have "parseElements n [] (d # ds) = Some r"
          using "2.prems" sk nobj \<open>c = CHR ''[''\<close> sk2 by auto
        from "2.IH"(2)[OF sk nobj \<open>c = CHR ''[''\<close> sk2 False this]
        show ?thesis using lds lcs by simp
      qed
    next
      case narr: False
      show ?thesis
      proof (cases "c = dq")
        case True
        then obtain k where "parseStringBody [] cs = Some k" "snd r = snd k"
          using "2.prems" sk nobj narr by auto
        then show ?thesis using parseStringBody_shorter[of "[]" cs k] lcs by simp
      next
        case nstr: False
        have "length (snd r) < length (c # cs)"
        proof (cases "startsWith (c # cs) ''true''")
          case True
          then have "snd r = drop 4 (c # cs)" using "2.prems" sk nobj narr nstr by auto
          then show ?thesis by simp
        next
          case nt: False
          show ?thesis
          proof (cases "startsWith (c # cs) ''false''")
            case True
            then have "snd r = drop 5 (c # cs)" using "2.prems" sk nobj narr nstr nt by auto
            then show ?thesis by simp
          next
            case nf: False
            show ?thesis
            proof (cases "startsWith (c # cs) ''null''")
              case True
              then have "snd r = drop 4 (c # cs)"
                using "2.prems" sk nobj narr nstr nt nf by auto
              then show ?thesis by simp
            next
              case nn: False
              then obtain k where "parseNumber (c # cs) = Some k" "snd r = snd k"
                using "2.prems" sk nobj narr nstr nt nf by auto
              then show ?thesis using parseNumber_shorter[of "c # cs" k] by simp
            qed
          qed
        qed
        then show ?thesis using lcs by simp
      qed
    qed
  qed
next
  case (3 acc s)
  then show ?case by simp
next
  case (4 n acc s)
  from "4.prems" obtain v where v: "parseValue n s = Some v"
    by (auto split: option.splits)
  have lv: "length (snd v) < length s" using "4.IH"(1)[OF v] .
  from "4.prems" v obtain c cs where sk: "skipWs (snd v) = c # cs"
    by (auto split: list.splits)
  have lcs: "length cs < length (snd v)" using skipWs_Cons_length[OF sk] .
  show ?case
  proof (cases "c = CHR '',''")
    case True
    then have "parseElements n (fst v # acc) cs = Some r"
      using "4.prems" v sk by auto
    from "4.IH"(2)[OF v sk True this] show ?thesis using lcs lv by simp
  next
    case False
    then have "snd r = cs" using "4.prems" v sk by (auto split: if_splits)
    then show ?thesis using lcs lv by simp
  qed
next
  case (5 macc s)
  then show ?case by simp
next
  case (6 n macc s)
  from "6.prems" obtain q qs where sk: "skipWs s = q # qs"
    by (auto split: list.splits)
  have lqs: "length qs < length s" using skipWs_Cons_length[OF sk] .
  from "6.prems" sk have q: "\<not> q \<noteq> dq" by (auto split: if_splits)
  from "6.prems" sk q obtain k where k: "parseStringBody [] qs = Some k"
    by (auto split: option.splits)
  have lk: "length (snd k) < length qs" using parseStringBody_shorter[OF k] .
  from "6.prems" sk q k obtain c cs where sk2: "skipWs (snd k) = c # cs"
    by (auto split: list.splits)
  have lcs: "length cs < length (snd k)" using skipWs_Cons_length[OF sk2] .
  from "6.prems" sk q k sk2 have c: "\<not> c \<noteq> CHR '':''" by (auto split: if_splits)
  from "6.prems" sk q k sk2 c obtain v where v: "parseValue n cs = Some v"
    by (auto split: option.splits)
  have lv: "length (snd v) < length cs" using "6.IH"(1)[OF sk q k sk2 c v] .
  from "6.prems" sk q k sk2 c v obtain d ds where sk3: "skipWs (snd v) = d # ds"
    by (auto split: list.splits)
  have lds: "length ds < length (snd v)" using skipWs_Cons_length[OF sk3] .
  show ?case
  proof (cases "d = CHR '',''")
    case True
    then have "parseMembers n ((fst k, fst v) # macc) ds = Some r"
      using "6.prems" sk q k sk2 c v sk3 by auto
    from "6.IH"(2)[OF sk q k sk2 c v sk3 True this]
    show ?thesis using lds lv lcs lk lqs by simp
  next
    case False
    then have "snd r = ds" using "6.prems" sk q k sk2 c v sk3 by (auto split: if_splits)
    then show ?thesis using lds lv lcs lk lqs by simp
  qed
qed


lemma parse_fuel_step:
  shows "2 * length s + 1 \<le> n \<Longrightarrow> parseValue (Suc n) s = parseValue n s"
    and "2 * length s + 2 \<le> n \<Longrightarrow> parseElements (Suc n) acc s = parseElements n acc s"
    and "2 * length s + 2 \<le> n \<Longrightarrow> parseMembers (Suc n) macc s = parseMembers n macc s"
proof (induction n s and n acc s and n macc s
    rule: parseValue_parseElements_parseMembers.induct)
  case (1 s)
  then show ?case by simp
next
  case (2 n s)
  have fuel: "2 * length s \<le> n" using "2.prems" by simp
  show ?case
  proof (cases "skipWs s")
    case Nil
    then show ?thesis by simp
  next
    case (Cons c cs)
    have lcs: "length cs < length s" using skipWs_Cons_length[OF Cons] .
    show ?thesis
    proof (cases "skipWs cs")
      case Nil
      then show ?thesis using Cons by simp
    next
      case ds: (Cons d ds)
      have lds: "length (d # ds) \<le> length cs"
        using skipWs_length[of cs] ds by simp
      have enough: "2 * length (d # ds) + 2 \<le> n" using lds lcs fuel by simp
      show ?thesis
      proof (cases "c = CHR ''{''")
        case obj: True
        show ?thesis
        proof (cases "d = CHR ''}''")
          case True
          then show ?thesis using Cons ds obj by simp
        next
          case False
          have "parseMembers (Suc n) [] (d # ds) = parseMembers n [] (d # ds)"
            using "2.IH"(1)[OF Cons obj ds False enough] .
          then show ?thesis
            using Cons ds obj False by (simp del: parseMembers.simps)
        qed
      next
        case nobj: False
        show ?thesis
        proof (cases "c = CHR ''[''")
          case arr: True
          show ?thesis
          proof (cases "d = CHR '']''")
            case True
            then show ?thesis using Cons ds nobj arr by simp
          next
            case False
            have "parseElements (Suc n) [] (d # ds) = parseElements n [] (d # ds)"
              using "2.IH"(2)[OF Cons nobj arr ds False enough] .
            then show ?thesis
              using Cons ds nobj arr False by (simp del: parseElements.simps)
          qed
        next
          case False
          then show ?thesis using Cons ds nobj by simp
        qed
      qed
    qed
  qed
next
  case (3 acc s)
  then show ?case by simp
next
  case (4 n acc s)
  have fuel: "2 * length s + 1 \<le> n" using "4.prems" by simp
  have v: "parseValue (Suc n) s = parseValue n s" using "4.IH"(1)[OF fuel] .
  note unfold = parseElements.simps(2)[of "Suc n" acc s] parseElements.simps(2)[of n acc s]
  show ?case
  proof (cases "parseValue n s")
    case None
    then show ?thesis unfolding unfold v by simp
  next
    case (Some r)
    have lr: "length (snd r) < length s" using parse_shorter(1)[OF Some] .
    show ?thesis
    proof (cases "skipWs (snd r)")
      case Nil
      then show ?thesis unfolding unfold v Some by simp
    next
      case (Cons c cs)
      have lcs: "length cs < length (snd r)" using skipWs_Cons_length[OF Cons] .
      have enough: "2 * length cs + 2 \<le> n" using lcs lr fuel by simp
      show ?thesis
      proof (cases "c = CHR '',''")
        case True
        have "parseElements (Suc n) (fst r # acc) cs = parseElements n (fst r # acc) cs"
          using "4.IH"(2)[OF Some Cons True enough] .
        then show ?thesis
          unfolding unfold v Some using Cons True by (simp del: parseElements.simps)
      next
        case False
        then show ?thesis
          unfolding unfold v Some using Cons by (simp del: parseElements.simps)
      qed
    qed
  qed
next
  case (5 macc s)
  then show ?case by simp
next
  case (6 n macc s)
  have fuel: "2 * length s + 1 \<le> n" using "6.prems" by simp
  note unfold = parseMembers.simps(2)[of "Suc n" macc s] parseMembers.simps(2)[of n macc s]
  show ?case
  proof (cases "skipWs s")
    case Nil
    then show ?thesis unfolding unfold by simp
  next
    case (Cons q qs)
    have lqs: "length qs < length s" using skipWs_Cons_length[OF Cons] .
    show ?thesis
    proof (cases "q \<noteq> dq")
      case True
      then show ?thesis unfolding unfold Cons by simp
    next
      case q: False
      show ?thesis
      proof (cases "parseStringBody [] qs")
        case None
        then show ?thesis unfolding unfold Cons using q by simp
      next
        case (Some k)
        have lk: "length (snd k) < length qs" using parseStringBody_shorter[OF Some] .
        show ?thesis
        proof (cases "skipWs (snd k)")
          case Nil
          then show ?thesis unfolding unfold Cons using q Some by simp
        next
          case cs: (Cons c cs)
          have lcs: "length cs < length (snd k)" using skipWs_Cons_length[OF cs] .
          show ?thesis
          proof (cases "c \<noteq> CHR '':''")
            case True
            then show ?thesis unfolding unfold Cons using q Some cs by simp
          next
            case c: False
            have fv: "2 * length cs + 1 \<le> n" using lcs lk lqs fuel by simp
            have v: "parseValue (Suc n) cs = parseValue n cs"
              using "6.IH"(1)[OF Cons q Some cs c fv] .
            show ?thesis
            proof (cases "parseValue n cs")
              case None
              then show ?thesis
                unfolding unfold Cons using q Some cs c v
                by (simp del: parseValue.simps parseMembers.simps)
            next
              case r: (Some r)
              have lr: "length (snd r) < length cs" using parse_shorter(1)[OF r] .
              show ?thesis
              proof (cases "skipWs (snd r)")
                case Nil
                then show ?thesis
                  unfolding unfold Cons using q Some cs c v r
                  by (simp del: parseValue.simps parseMembers.simps)
              next
                case ds: (Cons d ds)
                have lds: "length ds < length (snd r)" using skipWs_Cons_length[OF ds] .
                have enough: "2 * length ds + 2 \<le> n"
                  using lds lr lcs lk lqs fuel by simp
                show ?thesis
                proof (cases "d = CHR '',''")
                  case True
                  have "parseMembers (Suc n) ((fst k, fst r) # macc) ds =
                        parseMembers n ((fst k, fst r) # macc) ds"
                    using "6.IH"(2)[OF Cons q Some cs c r ds True enough] .
                  then show ?thesis
                    unfolding unfold Cons using q Some cs c v r ds True
                    by (simp del: parseValue.simps parseMembers.simps)
                next
                  case False
                  then show ?thesis
                    unfolding unfold Cons using q Some cs c v r ds
                    by (simp del: parseValue.simps parseMembers.simps)
                qed
              qed
            qed
          qed
        qed
      qed
    qed
  qed
qed

lemma parseValue_fuel:
  "2 * length s + 1 \<le> n \<Longrightarrow> parseValue (n + k) s = parseValue n s"
proof (induction k)
  case 0
  show ?case by simp
next
  case (Suc k)
  have "2 * length s + 1 \<le> n + k" using Suc.prems by simp
  from parse_fuel_step(1)[OF this] Suc show ?case by simp
qed

lemma JSON_parse_fuel:
  assumes "2 * length s + 2 \<le> n"
  shows "(case parseValue n s of
            None \<Rightarrow> None
          | Some r \<Rightarrow> if skipWs (snd r) = [] then Some (fst r) else None) = JSON_parse s"
proof -
  obtain k where n: "n = (2 * length s + 2) + k"
    using assms by (metis le_Suc_ex)
  have "parseValue n s = parseValue (2 * length s + 2) s"
    unfolding n by (rule parseValue_fuel) simp
  then show ?thesis by (simp add: JSON_parse_def)
qed

section \<open>Properties of the AI response route\<close>

lemma dropWhile_until:
  "x \<notin> set pre \<Longrightarrow> dropWhile (\<lambda>c. c \<noteq> x) (pre @ x # rest) = x # rest"
  by (induction pre) auto

lemma upto_last:
  assumes "x \<notin> set post"
  shows "rev (dropWhile (\<lambda>c. c \<noteq> x) (rev (a @ x # post))) = a @ [x]"
proof -
  have "rev (a @ x # post) = rev post @ x # rev a" by simp
  moreover have "x \<notin> set (rev post)" using assms by simp
  ultimately have "dropWhile (\<lambda>c. c \<noteq> x) (rev (a @ x # post)) = x # rev a"
    using dropWhile_until[of x "rev post" "rev a"] by simp
  then show ?thesis by simp
qed

lemma spanFirstToLast_Some:
  assumes pre: "ob \<notin> set pre" and post: "cb \<notin> set post"
  shows "spanFirstToLast ob cb (pre @ ob # mid @ cb # post) = Some (ob # mid @ [cb])"
proof -
  have fb: "dropWhile (\<lambda>c. c \<noteq> ob) (pre @ ob # mid @ cb # post) = (ob # mid) @ cb # post"
    using dropWhile_until[OF pre] by simp
  have "rev (dropWhile (\<lambda>c. c \<noteq> cb) (rev ((ob # mid) @ cb # post))) = (ob # mid) @ [cb]"
    using post by (rule upto_last)
  then show ?thesis unfolding spanFirstToLast_def Let_def fb by simp
qed

lemma spanFirstToLast_None1:
  assumes "ob \<notin> set r"
  shows "spanFirstToLast ob cb r = None"
proof -
  have "dropWhile (\<lambda>c. c \<noteq> ob) r = []" using assms by auto
  then show ?thesis by (simp add: spanFirstToLast_def)
qed

lemma spanFirstToLast_None2:
  assumes pre: "ob \<notin> set pre" and rest: "cb \<notin> set rest"
  shows "spanFirstToLast ob cb (pre @ ob # rest) = None"
proof -
  have "dropWhile (\<lambda>c. c \<noteq> ob) (pre @ ob # rest) = ob # rest"
    using pre by (rule dropWhile_until)
  then show ?thesis using rest by (simp add: spanFirstToLast_def)
qed

lemma spanFirstToLast_iff:
  "spanFirstToLast ob cb r = Some m \<longleftrightarrow>
     (\<exists>pre mid post. r = pre @ [ob] @ mid @ [cb] @ post \<and>
        ob \<notin> set pre \<and> cb \<notin> set post \<and> m = [ob] @ mid @ [cb])"
proof
  assume a: "spanFirstToLast ob cb r = Some m"
  have "ob \<in> set r"
    using a spanFirstToLast_None1[of ob r cb] by (cases "ob \<in> set r") simp_all
  then obtain pre rest where r: "r = pre @ ob # rest" and pre: "ob \<notin> set pre"
    using split_list_first[of ob r] by blast
  have "cb \<in> set rest"
    using a spanFirstToLast_None2[OF pre, of cb rest] unfolding r
    by (cases "cb \<in> set rest") simp_all
  then obtain mid post where rest: "rest = mid @ cb # post" and post: "cb \<notin> set post"
    using split_list_last[of cb rest] by blast
  have "m = ob # mid @ [cb]"
    using a spanFirstToLast_Some[OF pre post, of mid] unfolding r rest by simp
  then have "r = pre @ [ob] @ mid @ [cb] @ post \<and> ob \<notin> set pre \<and> cb \<notin> set post \<and>
      m = [ob] @ mid @ [cb]"
    using r rest pre post by simp
  then show "\<exists>pre mid post. r = pre @ [ob] @ mid @ [cb] @ post \<and>
        ob \<notin> set pre \<and> cb \<notin> set post \<and> m = [ob] @ mid @ [cb]"
    by blast
next
  assume "\<exists>pre mid post. r = pre @ [ob] @ mid @ [cb] @ post \<and>
        ob \<notin> set pre \<and> cb \<notin> set post \<and> m = [ob] @ mid @ [cb]"
  then obtain pre mid post where r: "r = pre @ ob # mid @ cb # post"
    and pre: "ob \<notin> set pre" and post: "cb \<notin> set post"
    and m: "m = ob # mid @ [cb]" by auto
  show "spanFirstToLast ob cb r = Some m"
    unfolding r m using pre post by (rule spanFirstToLast_Some)
qed

lemma validateEntry_error: "validateEntry i t = Inl e \<Longrightarrow> e = TypeError"
  by (auto simp: validateEntry_def Let_def split: if_splits option.splits json.splits)

lemma validateAll_error: "validateAll i ts = Inl e \<Longrightarrow> e = TypeError"
  by (induction ts arbitrary: i) (auto split: sum.splits dest: validateEntry_error)

lemma rawTransactions_error: "rawTransactions p = Inl e \<Longrightarrow> e = TypeError"
  by (auto simp: rawTransactions_def split: if_splits option.splits json.splits)

lemma processResponse_ParseFailure:
  "processResponse r = Inl ParseFailure \<longleftrightarrow> r \<noteq> [] \<and> parseAIResponse r = None"
  by (auto simp: processResponse_def split: option.splits sum.splits
      dest: validateAll_error rawTransactions_error)

text \<open>
  C4, amended. The route parses the text from the first \<open>{\<close> to the last \<open>}\<close> when the
  response has such a part, and the whole response only when it has none; it signals
  ParseFailure exactly when that one parse fails. There is no second attempt on the
  whole text after a failed parse of the part in braces.
\<close>

theorem parse_failure_single_attempt:
  "(processResponse r = Inl ParseFailure \<longleftrightarrow>
      r \<noteq> [] \<and> (case jsonMatch r of Some m \<Rightarrow> JSON_parse m = None | None \<Rightarrow> JSON_parse r = None))
   \<and> (jsonMatch r = Some m \<longleftrightarrow>
        (\<exists>pre mid post. r = pre @ [CHR ''{''] @ mid @ [CHR ''}''] @ post \<and>
           CHR ''{'' \<notin> set pre \<and> CHR ''}'' \<notin> set post \<and> m = [CHR ''{''] @ mid @ [CHR ''}'']))"
proof
  show "processResponse r = Inl ParseFailure \<longleftrightarrow>
      r \<noteq> [] \<and> (case jsonMatch r of Some m \<Rightarrow> JSON_parse m = None | None \<Rightarrow> JSON_parse r = None)"
    by (simp add: processResponse_ParseFailure parseAIResponse_def split: option.splits)
  show "jsonMatch r = Some m \<longleftrightarrow>
        (\<exists>pre mid post. r = pre @ [CHR ''{''] @ mid @ [CHR ''}''] @ post \<and>
           CHR ''{'' \<notin> set pre \<and> CHR ''}'' \<notin> set post \<and> m = [CHR ''{''] @ mid @ [CHR ''}''])"
    unfolding jsonMatch_def by (rule spanFirstToLast_iff)
qed

theorem parse_failure_single_attempt_witness:
  "jsonMatch ''ok: {} done'' = Some ''{}'' \<and> processResponse ''ok: {} done'' \<noteq> Inl ParseFailure"
proof -
  have m: "jsonMatch ''ok: {} done'' = Some ''{}''" by code_simp
  have p: "JSON_parse ''{}'' = Some (JObj [])" by code_simp
  show ?thesis
    using parse_failure_single_attempt[of "''ok: {} done''" "''{}''"] m p by simp
qed

text \<open>
  C4 (as stated) fails: the response \<open>[{},{}]\<close> is valid JSON as a whole, its part from
  the first \<open>{\<close> to the last \<open>}\<close> is not, and the route signals ParseFailure.
\<close>

theorem parse_failure_no_fallback_counterexample:
  "jsonMatch ''[{},{}]'' = Some ''{},{}''
   \<and> JSON_parse ''{},{}'' = None
   \<and> JSON_parse ''[{},{}]'' = Some (JArr [JObj [], JObj []])
   \<and> processResponse ''[{},{}]'' = Inl ParseFailure"
  by code_simp









lemma validateEntry_Some:
  "validateEntry i e = Inr (Some t) \<Longrightarrow>
     \<exists>dateV d a. t = emitTransaction i e dateV d a \<and>
        getProp e ''date'' = Some dateV \<and> getProp e ''description'' = Some (JStr d) \<and>
        getProp e ''amount'' = Some (JNum a)"
  by (auto simp: validateEntry_def split: if_splits option.splits json.splits)















section \<open>Signs of the emitted amounts\<close>











section \<open>Confidence of the emitted records\<close>

lemma normalizeConfidence_number:
  "c \<noteq> 0 \<Longrightarrow> normalizeConfidence (Some (JNum c)) = Conf (min (max c (1/2)) 1)"
  by (simp add: normalizeConfidence_def clamp_def)

lemma normalizeConfidence_absent: "normalizeConfidence None = Conf (8/10)"
  by (simp add: normalizeConfidence_def clamp_def)

lemma normalizeConfidence_zero: "normalizeConfidence (Some (JNum 0)) = Conf (8/10)"
  by (simp add: normalizeConfidence_def clamp_def)

lemma emitTransaction_fields:
  "txn_description (emitTransaction i e dv d a) = trim d"
  "txn_confidence (emitTransaction i e dv d a) = normalizeConfidence (getProp e ''confidence'')"
  "txn_amount (emitTransaction i e dv d a) = round2 (if a > 0 then - \<bar>a\<bar> else a)"
  "txn_date (emitTransaction i e dv d a) = dv"
  unfolding emitTransaction_def Let_def by simp_all

lemma emitted_confidence:
  assumes "validateEntry i e = Inr (Some t)"
  shows "txn_confidence t = normalizeConfidence (getProp e ''confidence'')"
proof -
  from validateEntry_Some[OF assms] obtain dateV d a where
    t: "t = emitTransaction i e dateV d a" by blast
  show ?thesis unfolding t by (rule emitTransaction_fields)
qed

lemma zeroConfidence_result:
  "processResponse zeroConfidenceResponse =
     Inr \<lparr>transactions =
        [\<lparr>txn_id = JStr ''txn_001'', txn_date = JStr ''2025-07-14'',
          txn_description = ''Corner Store'', txn_amount = - 5,
          txn_category = ''Miscellaneous'', txn_confidence = Conf (8 / 10)\<rparr>],
        totalAmount = 5,
        summary =
          [(''Living Expenses'', 0), (''Groceries'', 0), (''Restaurants'', 0), (''Car'', 0),
           (''Entertainment'', 0), (''Miscellaneous'', 5)]\<rparr>"
  by code_simp

text \<open>
  C6: the code at the failing input. The entry of \<open>zeroConfidenceResponse\<close> is accepted
  and carries the numeric confidence 0; the emitted confidence is 0.8, while the clamp
  of 0 into [0.5, 1.0] is 0.5. (For a numeric confidence other than 0 the emitted
  confidence is the clamp, and for an absent confidence it is 0.8:
  \<open>normalizeConfidence_number\<close>, \<open>normalizeConfidence_absent\<close>, \<open>emitted_confidence\<close>.)
\<close>

theorem zero_confidence_defaults:
  "(case processResponse zeroConfidenceResponse of
      Inr out \<Rightarrow> map txn_confidence (transactions out)
    | Inl e \<Rightarrow> []) = [Conf (8 / 10)]
   \<and> min (max 0 (1/2)) 1 = (1/2 :: rat)
   \<and> normalizeConfidence (Some (JNum 0)) = Conf (8 / 10)"
  by (simp add: zeroConfidence_result normalizeConfidence_zero)

section \<open>Malformed entries\<close>

lemma validateEntry_dropped:
  "e \<noteq> JNull \<Longrightarrow> \<not> keptEntry e \<Longrightarrow> validateEntry i e = Inr None"
  by (auto simp: validateEntry_def keptEntry_def hasNumber_def split: option.splits json.splits)

lemma validateEntry_kept:
  assumes "e \<noteq> JNull" and "keptEntry e" and "descriptionString e = Some d"
  shows "\<exists>t. validateEntry i e = Inr (Some t) \<and> txn_description t = trim d"
proof -
  from assms(2) obtain dateV where dv: "getProp e ''date'' = Some dateV"
    and tdv: "truthy (Some dateV)" and re: "dateRegexTest dateV"
    by (auto simp: keptEntry_def split: option.splits)
  from assms(2) obtain a where a: "getProp e ''amount'' = Some (JNum a)"
    by (auto simp: keptEntry_def hasNumber_def split: option.splits json.splits)
  from assms(3) have de: "getProp e ''description'' = Some (JStr d)"
    by (auto simp: descriptionString_def split: option.splits json.splits)
  have td: "truthy (Some (JStr d))"
    using assms(2) de by (simp add: keptEntry_def)
  have "validateEntry i e = Inr (Some (emitTransaction i e dateV d a))"
    unfolding validateEntry_def dv de a using assms(1) tdv td re by simp
  then show ?thesis by (simp add: emitTransaction_fields)
qed

lemma validateAll_objects:
  assumes "\<forall>e\<in>set es. e \<noteq> JNull \<and> (keptEntry e \<longrightarrow> descriptionString e \<noteq> None)"
  shows "\<exists>ts. validateAll i es = Inr ts \<and>
           map txn_description ts =
             map (\<lambda>e. trim (the (descriptionString e))) (filter keptEntry es)"
  using assms
proof (induction es arbitrary: i)
  case Nil
  then show ?case by simp
next
  case (Cons e es)
  then obtain ts where ts: "validateAll (Suc i) es = Inr ts"
    and m: "map txn_description ts =
             map (\<lambda>e. trim (the (descriptionString e))) (filter keptEntry es)"
    by fastforce
  show ?case
  proof (cases "keptEntry e")
    case True
    then obtain d where d: "descriptionString e = Some d" using Cons.prems by auto
    from validateEntry_kept[OF _ True d, of i] Cons.prems obtain t where
      "validateEntry i e = Inr (Some t)" "txn_description t = trim d" by auto
    then show ?thesis using ts m True d by simp
  next
    case False
    then have "validateEntry i e = Inr None"
      using Cons.prems validateEntry_dropped by simp
    then show ?thesis using ts m False by simp
  qed
qed

lemma nullEntry_result: "processResponse nullEntryResponse = Inl TypeError"
  by code_simp

lemma numericDescription_result: "processResponse numericDescriptionResponse = Inl TypeError"
  by code_simp

text \<open>
  C9: the code at the failing inputs. An entry that is \<open>null\<close> has no description; the
  route does not drop it but fails with a TypeError for the whole response, and the
  well-formed entry after it does not appear in any output. The same happens for an
  entry whose description is a number. (For an array whose entries are not \<open>null\<close> and
  have string descriptions wherever they pass the other checks, the malformed entries
  are dropped and the others are emitted in their order: \<open>validateAll_objects\<close>.)
\<close>

theorem null_entry_fails_batch:
  "processResponse nullEntryResponse = Inl TypeError
   \<and> processResponse numericDescriptionResponse = Inl TypeError"
  by (simp add: nullEntry_result numericDescription_result)

end
